theory Spec2Isabelle
  imports Complex_Main
begin

section \<open>Tag filters (mapping/filter.go)\<close>

text \<open>
  A Go \<open>map[string]string\<close> is a finite partial function. \<open>TagFilter\<close> holds the rule
  table \<open>mappings\<close> (key to the map of accepted values; only the presence of a value as
  a key of the inner map is ever tested) and \<open>extraTags\<close> (only the presence of a key
  is ever tested, never the stored boolean).
\<close>

type_synonym TagMap = "string \<rightharpoonup> string"

record TagFilter =
  mappings :: "string \<rightharpoonup> (string \<rightharpoonup> string list)"
  extraTags :: "string \<rightharpoonup> bool"

text \<open>\<open>type RelationTagFilter struct { TagFilter }\<close>: one embedded field.\<close>

record RelationTagFilter =
  TagFilter :: TagFilter

text \<open>
  \<open>Mapping.RelationTagFilter\<close> (lines 21-30). The methods \<open>m.mappings\<close> and
  \<open>m.extraTags\<close> are not part of the sources; the maps they have filled are taken as
  the parameters \<open>ms\<close> and \<open>tags\<close>. The constructor then forces the key \<open>type\<close> into
  the always-retained keys.
\<close>

definition Mapping_RelationTagFilter ::
  "(string \<rightharpoonup> (string \<rightharpoonup> string list)) \<Rightarrow> (string \<rightharpoonup> bool) \<Rightarrow> RelationTagFilter" where
  "Mapping_RelationTagFilter ms tags =
     \<lparr>TagFilter = \<lparr>mappings = ms, extraTags = tags(''type'' \<mapsto> True)\<rparr>\<rparr>"

text \<open>
  One iteration of \<open>for k, v := range tags\<close> in \<open>TagFilter.Filter\<close> (lines 43-58), on the
  pair of the tag map and \<open>foundMapping\<close>. Go does not produce an entry that was
  removed before it was reached, which is the first case.
\<close>

definition Filter_step :: "TagFilter \<Rightarrow> TagMap \<times> bool \<Rightarrow> string \<Rightarrow> TagMap \<times> bool" where
  "Filter_step f s k =
     (case s of (tags, foundMapping) \<Rightarrow>
        (case tags k of
           None \<Rightarrow> (tags, foundMapping)
         | Some v \<Rightarrow>
             (case mappings f k of
                Some vals \<Rightarrow>
                  if vals ''__any__'' \<noteq> None then (tags, True)
                  else if vals v \<noteq> None then (tags, True)
                  else if extraTags f k = None then (tags(k := None), foundMapping)
                  else (tags, foundMapping)
              | None \<Rightarrow>
                  if extraTags f k = None then (tags(k := None), foundMapping)
                  else (tags, foundMapping))))"

fun Filter_loop :: "TagFilter \<Rightarrow> TagMap \<times> bool \<Rightarrow> string list \<Rightarrow> TagMap \<times> bool" where
  "Filter_loop f s [] = s"
| "Filter_loop f s (k # ks) = Filter_loop f (Filter_step f s k) ks"

text \<open>
  \<open>TagFilter.Filter\<close> (lines 41-64). The order in which \<open>range\<close> yields the keys is not
  fixed by Go; it is the parameter \<open>ks\<close>, an enumeration of the keys of \<open>tags\<close>. The
  result is the mutated tag map and the returned boolean.
\<close>

definition TagFilter_Filter :: "TagFilter \<Rightarrow> TagMap \<Rightarrow> string list \<Rightarrow> TagMap \<times> bool" where
  "TagFilter_Filter f tags ks = Filter_loop f (tags, False) ks"

text \<open>\<open>RelationTagFilter.Filter\<close> (lines 66-77).\<close>

definition RelationTagFilter_Filter ::
  "RelationTagFilter \<Rightarrow> TagMap \<Rightarrow> string list \<Rightarrow> TagMap \<times> bool" where
  "RelationTagFilter_Filter f tags ks =
     (case tags ''type'' of
        Some t \<Rightarrow>
          if t \<noteq> ''multipolygon'' \<and> t \<noteq> ''boundary'' \<and> t \<noteq> ''land_area'' then (tags, False)
          else (fst (TagFilter_Filter (TagFilter f) tags ks), True)
      | None \<Rightarrow> (tags, False))"

text \<open>The two tests of the loop body, named: a rule match, and a key that is kept.\<close>

definition rule_match :: "TagFilter \<Rightarrow> string \<Rightarrow> string \<Rightarrow> bool" where
  "rule_match f k v =
     (case mappings f k of
        None \<Rightarrow> False
      | Some vals \<Rightarrow> vals ''__any__'' \<noteq> None \<or> vals v \<noteq> None)"

definition kept :: "TagFilter \<Rightarrow> string \<Rightarrow> string \<Rightarrow> bool" where
  "kept f k v = (rule_match f k v \<or> extraTags f k \<noteq> None)"

lemma Filter_step_eq:
  "Filter_step f (tags, b) k =
     (case tags k of
        None \<Rightarrow> (tags, b)
      | Some v \<Rightarrow> (if kept f k v then tags else tags(k := None), b \<or> rule_match f k v))"
  by (auto simp: Filter_step_def kept_def rule_match_def split: option.splits)

lemma Filter_loop_eq:
  "Filter_loop f (tags, b) ks =
     (\<lambda>k. if k \<in> set ks
           then (case tags k of None \<Rightarrow> None | Some v \<Rightarrow> if kept f k v then Some v else None)
           else tags k,
      b \<or> (\<exists>k\<in>set ks. \<exists>v. tags k = Some v \<and> rule_match f k v))"
proof (induction ks arbitrary: tags b)
  case Nil
  then show ?case by simp
next
  case (Cons a ks)
  show ?case
  proof (cases "tags a")
    case None
    then show ?thesis
      by (auto simp: Filter_step_eq Cons.IH fun_eq_iff split: option.splits)
  next
    case (Some v)
    have tags': "fst (Filter_loop f (tags, b) (a # ks)) =
        (\<lambda>k. if k \<in> set (a # ks)
           then (case tags k of None \<Rightarrow> None | Some v \<Rightarrow> if kept f k v then Some v else None)
           else tags k)"
      using Some by (auto simp: Filter_step_eq Cons.IH fun_eq_iff split: option.splits)
    have verdict: "snd (Filter_loop f (tags, b) (a # ks)) =
        (b \<or> (\<exists>k\<in>set (a # ks). \<exists>v. tags k = Some v \<and> rule_match f k v))"
    proof (cases "kept f a v")
      case True
      then show ?thesis
        using Some by (auto simp: Filter_step_eq Cons.IH)
    next
      case False
      then have nm: "\<not> rule_match f a v"
        by (simp add: kept_def)
      have "(\<exists>k\<in>set ks. \<exists>w. (tags(a := None)) k = Some w \<and> rule_match f k w) =
            (\<exists>k\<in>set ks. \<exists>w. tags k = Some w \<and> rule_match f k w)"
        using Some nm by (metis fun_upd_apply option.distinct(1) option.inject)
      then show ?thesis
        using Some False nm by (simp add: Filter_step_eq Cons.IH)
    qed
    show ?thesis
      using tags' verdict by (simp add: prod_eq_iff)
  qed
qed

lemma TagFilter_Filter_tags:
  assumes "set ks = dom tags"
  shows "fst (TagFilter_Filter f tags ks) =
           (\<lambda>k. case tags k of None \<Rightarrow> None | Some v \<Rightarrow> if kept f k v then Some v else None)"
  using assms
  by (auto simp: TagFilter_Filter_def Filter_loop_eq fun_eq_iff split: option.splits)

lemma TagFilter_Filter_verdict:
  assumes "set ks = dom tags"
  shows "snd (TagFilter_Filter f tags ks) = (\<exists>k v. tags k = Some v \<and> rule_match f k v)"
  using assms
  by (auto simp: TagFilter_Filter_def Filter_loop_eq)

lemma kept_unfold:
  "kept f k v =
     ((\<exists>vals. mappings f k = Some vals \<and> (''__any__'' \<in> dom vals \<or> v \<in> dom vals)) \<or>
      k \<in> dom (extraTags f))"
  by (auto simp: kept_def rule_match_def split: option.splits)

lemma rule_match_unfold:
  "rule_match f k v =
     (\<exists>vals. mappings f k = Some vals \<and> (''__any__'' \<in> dom vals \<or> v \<in> dom vals))"
  by (auto simp: rule_match_def split: option.splits)

lemma TagFilter_Filter_again:
  assumes ks: "set ks = dom tags"
    and ks': "set ks' = dom (fst (TagFilter_Filter f tags ks))"
  shows "TagFilter_Filter f (fst (TagFilter_Filter f tags ks)) ks' = TagFilter_Filter f tags ks"
proof -
  let ?t = "fst (TagFilter_Filter f tags ks)"
  have t: "?t = (\<lambda>k. case tags k of None \<Rightarrow> None | Some v \<Rightarrow> if kept f k v then Some v else None)"
    by (rule TagFilter_Filter_tags [OF ks])
  have "fst (TagFilter_Filter f ?t ks') =
          (\<lambda>k. case ?t k of None \<Rightarrow> None | Some v \<Rightarrow> if kept f k v then Some v else None)"
    by (rule TagFilter_Filter_tags [OF ks'])
  also have "\<dots> = ?t"
    by (subst (1 2) t) (auto simp: fun_eq_iff split: option.splits)
  finally have tags_eq: "fst (TagFilter_Filter f ?t ks') = ?t" .
  have "snd (TagFilter_Filter f ?t ks') = (\<exists>k v. ?t k = Some v \<and> rule_match f k v)"
    by (rule TagFilter_Filter_verdict [OF ks'])
  also have "\<dots> = (\<exists>k v. tags k = Some v \<and> rule_match f k v)"
  proof -
    have "?t k = Some v \<longleftrightarrow> tags k = Some v \<and> kept f k v" for k v
      by (subst t) (auto split: option.splits)
    then show ?thesis
      by (auto simp: kept_def)
  qed
  also have "\<dots> = snd (TagFilter_Filter f tags ks)"
    by (rule TagFilter_Filter_verdict [OF ks, symmetric])
  finally have "snd (TagFilter_Filter f ?t ks') = snd (TagFilter_Filter f tags ks)" .
  with tags_eq show ?thesis
    by (simp add: prod_eq_iff)
qed

lemma RelationTagFilter_Filter_again:
  assumes ks: "set ks = dom tags"
    and ks': "set ks' = dom (fst (RelationTagFilter_Filter r tags ks))"
    and ty: "fst (RelationTagFilter_Filter r tags ks) ''type'' = tags ''type''"
  shows "RelationTagFilter_Filter r (fst (RelationTagFilter_Filter r tags ks)) ks' =
           RelationTagFilter_Filter r tags ks"
proof (cases "\<exists>t. tags ''type'' = Some t \<and> (t = ''multipolygon'' \<or> t = ''boundary'' \<or> t = ''land_area'')")
  case False
  then have "RelationTagFilter_Filter r tags js = (tags, False)" for js
    by (auto simp: RelationTagFilter_Filter_def split: option.splits)
  then show ?thesis
    by simp
next
  case True
  then obtain t where t: "tags ''type'' = Some t"
    and acc: "t = ''multipolygon'' \<or> t = ''boundary'' \<or> t = ''land_area''"
    by blast
  let ?f = "TagFilter r"
  have first: "RelationTagFilter_Filter r tags ks = (fst (TagFilter_Filter ?f tags ks), True)"
    using t acc by (auto simp: RelationTagFilter_Filter_def)
  have ty': "fst (TagFilter_Filter ?f tags ks) ''type'' = Some t"
    using ty t by (simp add: first)
  have ks2: "set ks' = dom (fst (TagFilter_Filter ?f tags ks))"
    using ks' by (simp add: first)
  have "RelationTagFilter_Filter r (fst (TagFilter_Filter ?f tags ks)) ks' =
          (fst (TagFilter_Filter ?f (fst (TagFilter_Filter ?f tags ks)) ks'), True)"
    using ty' acc by (auto simp: RelationTagFilter_Filter_def)
  also have "\<dots> = (fst (TagFilter_Filter ?f tags ks), True)"
    by (simp add: TagFilter_Filter_again [OF ks ks2])
  finally show ?thesis
    by (simp add: first)
qed

lemma Mapping_RelationTagFilter_keeps_type:
  assumes "set ks = dom tags"
  shows "fst (RelationTagFilter_Filter (Mapping_RelationTagFilter ms ex) tags ks) ''type'' =
           tags ''type''"
  using assms
  by (auto simp: RelationTagFilter_Filter_def TagFilter_Filter_tags kept_def
      Mapping_RelationTagFilter_def split: option.splits)

subsection \<open>Claims about the tag filters\<close>

text \<open>
  C1: for every rule table, always-retained key set and tag set, and whatever the order in
  which the keys are visited, \<open>TagFilter.Filter\<close> leaves a key with its value exactly when
  the rule table has an entry for the key whose values contain \<open>__any__\<close> or the tag's
  value, or the key is always retained; every other key is deleted; the returned boolean
  is true exactly when some key of the tag set has such a rule entry. In particular an
  entry with the values \<open>{__any__}\<close> makes every tag set with that key relevant and keeps
  the key.
\<close>

theorem TagFilter_Filter_retains:
  assumes "set ks = dom tags"
  shows "fst (TagFilter_Filter f tags ks) =
           (\<lambda>k. case tags k of
                  None \<Rightarrow> None
                | Some v \<Rightarrow>
                    if (\<exists>vals. mappings f k = Some vals \<and>
                          (''__any__'' \<in> dom vals \<or> v \<in> dom vals)) \<or>
                       k \<in> dom (extraTags f)
                    then Some v else None) \<and>
         snd (TagFilter_Filter f tags ks) =
           (\<exists>k v vals. tags k = Some v \<and> mappings f k = Some vals \<and>
              (''__any__'' \<in> dom vals \<or> v \<in> dom vals)) \<and>
         (\<forall>k v vals. tags k = Some v \<and> mappings f k = Some vals \<and> dom vals = {''__any__''} \<longrightarrow>
            snd (TagFilter_Filter f tags ks) \<and> fst (TagFilter_Filter f tags ks) k = Some v)"
proof -
  have tags_eq: "fst (TagFilter_Filter f tags ks) =
      (\<lambda>k. case tags k of
             None \<Rightarrow> None
           | Some v \<Rightarrow>
               if (\<exists>vals. mappings f k = Some vals \<and>
                     (''__any__'' \<in> dom vals \<or> v \<in> dom vals)) \<or>
                  k \<in> dom (extraTags f)
               then Some v else None)"
    by (simp only: TagFilter_Filter_tags [OF assms] kept_unfold)
  have verdict: "snd (TagFilter_Filter f tags ks) =
      (\<exists>k v vals. tags k = Some v \<and> mappings f k = Some vals \<and>
         (''__any__'' \<in> dom vals \<or> v \<in> dom vals))"
    by (simp only: TagFilter_Filter_verdict [OF assms] rule_match_unfold) blast
  have any: "snd (TagFilter_Filter f tags ks) \<and> fst (TagFilter_Filter f tags ks) k = Some v"
    if "tags k = Some v" "mappings f k = Some vals" "dom vals = {''__any__''}" for k v vals
  proof
    from that(3) have a: "''__any__'' \<in> dom vals"
      by simp
    with that(1,2) have "\<exists>k v vals. tags k = Some v \<and> mappings f k = Some vals \<and>
        (''__any__'' \<in> dom vals \<or> v \<in> dom vals)"
      by (intro exI [of _ k] exI [of _ v] exI [of _ vals]) simp
    then show "snd (TagFilter_Filter f tags ks)"
      by (simp only: verdict)
    have "fst (TagFilter_Filter f tags ks) k =
        (if (\<exists>vals. mappings f k = Some vals \<and> (''__any__'' \<in> dom vals \<or> v \<in> dom vals)) \<or>
            k \<in> dom (extraTags f)
         then Some v else None)"
      by (subst tags_eq) (simp add: that(1))
    also have "\<dots> = Some v"
      using that(2) a by simp
    finally show "fst (TagFilter_Filter f tags ks) k = Some v" .
  qed
  show ?thesis
  proof (intro conjI allI impI)
    show "fst (TagFilter_Filter f tags ks) =
      (\<lambda>k. case tags k of
             None \<Rightarrow> None
           | Some v \<Rightarrow>
               if (\<exists>vals. mappings f k = Some vals \<and>
                     (''__any__'' \<in> dom vals \<or> v \<in> dom vals)) \<or>
                  k \<in> dom (extraTags f)
               then Some v else None)"
      by (rule tags_eq)
    show "snd (TagFilter_Filter f tags ks) =
      (\<exists>k v vals. tags k = Some v \<and> mappings f k = Some vals \<and>
         (''__any__'' \<in> dom vals \<or> v \<in> dom vals))"
      by (rule verdict)
  next
    fix k v vals
    assume "tags k = Some v \<and> mappings f k = Some vals \<and> dom vals = {''__any__''}"
    then show "snd (TagFilter_Filter f tags ks)" "fst (TagFilter_Filter f tags ks) k = Some v"
      using any [of k v vals] by simp_all
  qed
qed

theorem TagFilter_Filter_retains_witness:
  "set [''foo'', ''shop'', ''name''] = dom [''shop'' \<mapsto> ''bakery'', ''name'' \<mapsto> ''Joe'', ''foo'' \<mapsto> ''bar''] \<and>
   snd (TagFilter_Filter
          \<lparr>mappings = [''shop'' \<mapsto> [''bakery'' \<mapsto> [''shops'']]], extraTags = [''name'' \<mapsto> True]\<rparr>
          [''shop'' \<mapsto> ''bakery'', ''name'' \<mapsto> ''Joe'', ''foo'' \<mapsto> ''bar'']
          [''foo'', ''shop'', ''name'']) \<and>
   map (fst (TagFilter_Filter
          \<lparr>mappings = [''shop'' \<mapsto> [''bakery'' \<mapsto> [''shops'']]], extraTags = [''name'' \<mapsto> True]\<rparr>
          [''shop'' \<mapsto> ''bakery'', ''name'' \<mapsto> ''Joe'', ''foo'' \<mapsto> ''bar'']
          [''foo'', ''shop'', ''name''])) [''shop'', ''name'', ''foo''] =
     [Some ''bakery'', Some ''Joe'', None]"
proof -
  have h: "set [''foo'', ''shop'', ''name''] =
      dom [''shop'' \<mapsto> ''bakery'', ''name'' \<mapsto> ''Joe'', ''foo'' \<mapsto> ''bar'']"
    by auto
  show ?thesis
    using h TagFilter_Filter_retains [OF h,
        of "\<lparr>mappings = [''shop'' \<mapsto> [''bakery'' \<mapsto> [''shops'']]], extraTags = [''name'' \<mapsto> True]\<rparr>"]
    by simp
qed

text \<open>
  C2: \<open>RelationTagFilter.Filter\<close> returns false and leaves the tag set as it is when the
  key \<open>type\<close> is absent, or present with a value other than \<open>multipolygon\<close>,
  \<open>boundary\<close> and \<open>land_area\<close>. When the value is one of the three, it runs the wrapped
  \<open>TagFilter.Filter\<close>, whose pruning is the resulting tag set, and returns true whatever
  the wrapped filter returned.
\<close>

theorem RelationTagFilter_Filter_type:
  "(tags ''type'' = None \<or>
      (\<exists>t. tags ''type'' = Some t \<and> t \<noteq> ''multipolygon'' \<and> t \<noteq> ''boundary'' \<and> t \<noteq> ''land_area'')
    \<longrightarrow> RelationTagFilter_Filter r tags ks = (tags, False)) \<and>
   (tags ''type'' = Some ''multipolygon'' \<or> tags ''type'' = Some ''boundary'' \<or>
      tags ''type'' = Some ''land_area''
    \<longrightarrow> RelationTagFilter_Filter r tags ks = (fst (TagFilter_Filter (TagFilter r) tags ks), True) \<and>
        (set ks = dom tags \<longrightarrow>
           fst (RelationTagFilter_Filter r tags ks) =
             (\<lambda>k. case tags k of
                    None \<Rightarrow> None
                  | Some v \<Rightarrow>
                      if (\<exists>vals. mappings (TagFilter r) k = Some vals \<and>
                            (''__any__'' \<in> dom vals \<or> v \<in> dom vals)) \<or>
                         k \<in> dom (extraTags (TagFilter r))
                      then Some v else None)))"
proof (intro conjI impI)
  assume "tags ''type'' = None \<or>
    (\<exists>t. tags ''type'' = Some t \<and> t \<noteq> ''multipolygon'' \<and> t \<noteq> ''boundary'' \<and> t \<noteq> ''land_area'')"
  then show "RelationTagFilter_Filter r tags ks = (tags, False)"
    by (auto simp: RelationTagFilter_Filter_def)
next
  assume acc: "tags ''type'' = Some ''multipolygon'' \<or> tags ''type'' = Some ''boundary'' \<or>
    tags ''type'' = Some ''land_area''"
  then show run: "RelationTagFilter_Filter r tags ks =
      (fst (TagFilter_Filter (TagFilter r) tags ks), True)"
    by (auto simp: RelationTagFilter_Filter_def)
  assume "set ks = dom tags"
  then show "fst (RelationTagFilter_Filter r tags ks) =
      (\<lambda>k. case tags k of
             None \<Rightarrow> None
           | Some v \<Rightarrow>
               if (\<exists>vals. mappings (TagFilter r) k = Some vals \<and>
                     (''__any__'' \<in> dom vals \<or> v \<in> dom vals)) \<or>
                  k \<in> dom (extraTags (TagFilter r))
               then Some v else None)"
    by (simp only: run fst_conv TagFilter_Filter_tags kept_unfold)
qed

theorem RelationTagFilter_Filter_type_witness:
  "RelationTagFilter_Filter (Mapping_RelationTagFilter Map.empty Map.empty)
      [''type'' \<mapsto> ''route'', ''highway'' \<mapsto> ''primary''] [''type'', ''highway''] =
     ([''type'' \<mapsto> ''route'', ''highway'' \<mapsto> ''primary''], False) \<and>
   RelationTagFilter_Filter (Mapping_RelationTagFilter Map.empty Map.empty)
      [''highway'' \<mapsto> ''primary''] [''highway''] = ([''highway'' \<mapsto> ''primary''], False) \<and>
   snd (RelationTagFilter_Filter (Mapping_RelationTagFilter Map.empty Map.empty)
      [''type'' \<mapsto> ''boundary'', ''highway'' \<mapsto> ''primary''] [''highway'', ''type'']) \<and>
   \<not> snd (TagFilter_Filter (TagFilter (Mapping_RelationTagFilter Map.empty Map.empty))
      [''type'' \<mapsto> ''boundary'', ''highway'' \<mapsto> ''primary''] [''highway'', ''type'']) \<and>
   map (fst (RelationTagFilter_Filter (Mapping_RelationTagFilter Map.empty Map.empty)
      [''type'' \<mapsto> ''boundary'', ''highway'' \<mapsto> ''primary''] [''highway'', ''type'']))
      [''type'', ''highway''] = [Some ''boundary'', None]"
proof -
  let ?r = "Mapping_RelationTagFilter Map.empty Map.empty"
  let ?t = "[''type'' \<mapsto> ''boundary'', ''highway'' \<mapsto> ''primary'']"
  have ks: "set [''highway'', ''type''] = dom ?t"
    by auto
  have nomatch: "\<not> snd (TagFilter_Filter (TagFilter ?r) ?t [''highway'', ''type''])"
    by (simp add: TagFilter_Filter_verdict [OF ks] rule_match_def Mapping_RelationTagFilter_def)
  have acc: "?t ''type'' = Some ''multipolygon'' \<or> ?t ''type'' = Some ''boundary'' \<or>
      ?t ''type'' = Some ''land_area''"
    by simp
  note run = RelationTagFilter_Filter_type [of ?t ?r "[''highway'', ''type'']",
      THEN conjunct2, THEN mp, OF acc]
  have verdict: "snd (RelationTagFilter_Filter ?r ?t [''highway'', ''type''])"
    by (simp add: run [THEN conjunct1])
  have pruned: "map (fst (RelationTagFilter_Filter ?r ?t [''highway'', ''type'']))
      [''type'', ''highway''] = [Some ''boundary'', None]"
    by (subst run [THEN conjunct2, THEN mp, OF ks])+
      (simp add: Mapping_RelationTagFilter_def)
  have rejected:
    "RelationTagFilter_Filter ?r [''type'' \<mapsto> ''route'', ''highway'' \<mapsto> ''primary'']
       [''type'', ''highway''] = ([''type'' \<mapsto> ''route'', ''highway'' \<mapsto> ''primary''], False)"
    "RelationTagFilter_Filter ?r [''highway'' \<mapsto> ''primary''] [''highway''] =
       ([''highway'' \<mapsto> ''primary''], False)"
    using
      RelationTagFilter_Filter_type [of "[''type'' \<mapsto> ''route'', ''highway'' \<mapsto> ''primary'']" ?r
        "[''type'', ''highway'']"]
      RelationTagFilter_Filter_type [of "[''highway'' \<mapsto> ''primary'']" ?r "[''highway'']"]
    by simp_all
  from rejected verdict nomatch pruned show ?thesis
    by (intro conjI)
qed

text \<open>
  C7: for every rule table, always-retained key set and tag set, and whatever the orders
  in which the keys are visited, a second application of \<open>Filter\<close> to the tag set that
  the first application left changes nothing and returns the same verdict. This holds
  for \<open>TagFilter.Filter\<close> of every filter, and for \<open>RelationTagFilter.Filter\<close> of the
  filter that \<open>Mapping.RelationTagFilter\<close> builds from the rule table and the
  always-retained keys.
\<close>

theorem Filter_twice:
  assumes "set ks = dom tags"
  shows "(set ks' = dom (fst (TagFilter_Filter f tags ks)) \<longrightarrow>
            TagFilter_Filter f (fst (TagFilter_Filter f tags ks)) ks' =
              TagFilter_Filter f tags ks) \<and>
         (set ks' = dom (fst (RelationTagFilter_Filter (Mapping_RelationTagFilter ms ex) tags ks)) \<longrightarrow>
            RelationTagFilter_Filter (Mapping_RelationTagFilter ms ex)
              (fst (RelationTagFilter_Filter (Mapping_RelationTagFilter ms ex) tags ks)) ks' =
              RelationTagFilter_Filter (Mapping_RelationTagFilter ms ex) tags ks)"
proof (intro conjI impI)
  assume "set ks' = dom (fst (TagFilter_Filter f tags ks))"
  with assms show "TagFilter_Filter f (fst (TagFilter_Filter f tags ks)) ks' =
      TagFilter_Filter f tags ks"
    by (rule TagFilter_Filter_again)
next
  let ?r = "Mapping_RelationTagFilter ms ex"
  assume "set ks' = dom (fst (RelationTagFilter_Filter ?r tags ks))"
  with assms show "RelationTagFilter_Filter ?r (fst (RelationTagFilter_Filter ?r tags ks)) ks' =
      RelationTagFilter_Filter ?r tags ks"
    by (rule RelationTagFilter_Filter_again)
      (rule Mapping_RelationTagFilter_keeps_type [OF assms])
qed

theorem Filter_twice_witness:
  "TagFilter_Filter \<lparr>mappings = [''shop'' \<mapsto> [''bakery'' \<mapsto> []]], extraTags = Map.empty\<rparr>
     (fst (TagFilter_Filter \<lparr>mappings = [''shop'' \<mapsto> [''bakery'' \<mapsto> []]], extraTags = Map.empty\<rparr>
        [''shop'' \<mapsto> ''bakery'', ''type'' \<mapsto> ''boundary''] [''type'', ''shop''])) [''shop''] =
   TagFilter_Filter \<lparr>mappings = [''shop'' \<mapsto> [''bakery'' \<mapsto> []]], extraTags = Map.empty\<rparr>
     [''shop'' \<mapsto> ''bakery'', ''type'' \<mapsto> ''boundary''] [''type'', ''shop''] \<and>
   RelationTagFilter_Filter (Mapping_RelationTagFilter [''shop'' \<mapsto> [''bakery'' \<mapsto> []]] Map.empty)
     (fst (RelationTagFilter_Filter (Mapping_RelationTagFilter [''shop'' \<mapsto> [''bakery'' \<mapsto> []]] Map.empty)
        [''shop'' \<mapsto> ''bakery'', ''type'' \<mapsto> ''boundary''] [''type'', ''shop''])) [''shop'', ''type''] =
   RelationTagFilter_Filter (Mapping_RelationTagFilter [''shop'' \<mapsto> [''bakery'' \<mapsto> []]] Map.empty)
     [''shop'' \<mapsto> ''bakery'', ''type'' \<mapsto> ''boundary''] [''type'', ''shop'']"
proof -
  let ?ms = "[''shop'' \<mapsto> [''bakery'' \<mapsto> ([] :: string list)]]"
  let ?f = "\<lparr>mappings = ?ms, extraTags = Map.empty\<rparr>"
  let ?r = "Mapping_RelationTagFilter ?ms Map.empty"
  let ?t = "[''shop'' \<mapsto> ''bakery'', ''type'' \<mapsto> ''boundary'']"
  have ks: "set [''type'', ''shop''] = dom ?t"
    by auto
  have t1: "fst (TagFilter_Filter ?f ?t [''type'', ''shop'']) = [''shop'' \<mapsto> ''bakery'']"
    by (simp add: TagFilter_Filter_def Filter_step_def fun_eq_iff)
  have t2: "fst (RelationTagFilter_Filter ?r ?t [''type'', ''shop'']) = ?t"
    by (simp add: RelationTagFilter_Filter_def TagFilter_Filter_def Filter_step_def
        Mapping_RelationTagFilter_def fun_eq_iff)
  have ks1: "set [''shop''] = dom (fst (TagFilter_Filter ?f ?t [''type'', ''shop'']))"
    by (simp add: t1)
  have ks2: "set [''shop'', ''type''] = dom (fst (RelationTagFilter_Filter ?r ?t [''type'', ''shop'']))"
    by (simp add: t2) auto
  from Filter_twice [OF ks, where ks' = "[''shop'']" and f = ?f, THEN conjunct1, THEN mp, OF ks1]
    Filter_twice [OF ks, where ks' = "[''shop'', ''type'']" and ms = ?ms and ex = Map.empty,
      THEN conjunct2, THEN mp, OF ks2]
  show ?thesis
    by (intro conjI)
qed

section \<open>The change file parser (update/parser/parser.go)\<close>

subsection \<open>Library functions the parser calls\<close>

text \<open>
  \<open>strconv.ParseInt(s, 10, 64)\<close> of the Go standard library, after its documentation and
  source: an optional sign, then \<open>ParseUint\<close> on the rest. The empty string and a byte that
  is not a decimal digit give \<open>ErrSyntax\<close> with the value 0; a value outside the range
  gives \<open>ErrRange\<close> with the nearest bound. \<open>ParseUint\<close> reads the bytes from the left
  and stops at the first failure.
\<close>

datatype NumError = ErrSyntax | ErrRange

definition maxUint64 :: nat where
  "maxUint64 = 18446744073709551615"

definition digit_of :: "char \<Rightarrow> nat option" where
  "digit_of c =
     (if (48::nat) \<le> of_char c \<and> (of_char c :: nat) \<le> 57 then Some (of_char c - 48) else None)"

fun ParseUint_loop :: "nat \<Rightarrow> string \<Rightarrow> nat \<times> NumError option" where
  "ParseUint_loop n [] = (n, None)"
| "ParseUint_loop n (c # cs) =
     (case digit_of c of
        None \<Rightarrow> (0, Some ErrSyntax)
      | Some d \<Rightarrow>
          if n \<ge> maxUint64 div 10 + 1 then (maxUint64, Some ErrRange)
          else if n * 10 + d > maxUint64 then (maxUint64, Some ErrRange)
          else ParseUint_loop (n * 10 + d) cs)"

definition ParseUint :: "string \<Rightarrow> nat \<times> NumError option" where
  "ParseUint s = (if s = [] then (0, Some ErrSyntax) else ParseUint_loop 0 s)"

definition ParseInt :: "string \<Rightarrow> int \<times> NumError option" where
  "ParseInt s =
     (if s = [] then (0, Some ErrSyntax)
      else
        let neg = (hd s = CHR ''-'');
            s' = (if hd s = CHR ''+'' \<or> hd s = CHR ''-'' then tl s else s);
            (un, err) = ParseUint s'
        in if err = Some ErrSyntax then (0, err)
           else if \<not> neg \<and> un \<ge> 2 ^ 63 then (2 ^ 63 - 1, Some ErrRange)
           else if neg \<and> un > 2 ^ 63 then (- (2 ^ 63), Some ErrRange)
           else (if neg then - int un else int un, None))"

text \<open>
  \<open>strconv.ParseFloat(s, 64)\<close> and \<open>time.Parse(time.RFC3339, s)\<close> are parameters of the
  model, as is the table \<open>element.MemberTypeValues\<close>, whose declaration is not part of
  the sources. Both functions return a value and an error; the parser keeps the value
  and drops the error. \<open>'f\<close> stands for \<open>float64\<close>, \<open>'t\<close> for \<open>time.Time\<close>; the zero
  value of either type is \<open>0\<close>. \<open>MemberType\<close> is an integer type.
\<close>

record ('f, 't) Lib =
  ParseFloat :: "string \<Rightarrow> 'f \<times> NumError option"
  time_Parse :: "string \<Rightarrow> 't \<times> bool"
  MemberTypeValues :: "string \<rightharpoonup> int"

subsection \<open>Elements and events\<close>

text \<open>
  The types of package \<open>element\<close>, with the fields the parser uses. A nil pointer and a
  nil map are \<open>None\<close>. \<open>Node\<close>, \<open>Way\<close> and \<open>Relation\<close> embed \<open>OSMElem\<close>.
\<close>

record Member =
  Type :: int
  Role :: string
  Id :: int

record 't Metadata =
  Version :: int
  UserId :: int
  UserName :: string
  Changeset :: int
  Timestamp :: 't

record 't OSMElem =
  Id :: int
  Tags :: "TagMap option"
  Metadata :: "'t Metadata option"

record ('f, 't) Node = "'t OSMElem" +
  Lat :: 'f
  Long :: 'f

record 't Way = "'t OSMElem" +
  Refs :: "int list"

record 't Relation = "'t OSMElem" +
  Members :: "Member list"

record ('f, 't) DiffElem =
  Add :: bool
  Mod :: bool
  Del :: bool
  Node :: "('f, 't) Node option"
  Way :: "'t Way option"
  Rel :: "'t Relation option"

text \<open>The zero values \<open>element.Member{}\<close>, \<open>&element.Node{}\<close> and so on.\<close>

definition Member0 :: Member where
  "Member0 = \<lparr>Type = 0, Role = [], Id = 0\<rparr>"

definition Metadata0 :: "('t::zero) Metadata" where
  "Metadata0 = \<lparr>Version = 0, UserId = 0, UserName = [], Changeset = 0, Timestamp = 0\<rparr>"

definition Node0 :: "('f::zero, 't) Node" where
  "Node0 = \<lparr>Id = 0, Tags = None, Metadata = None, Lat = 0, Long = 0\<rparr>"

definition Way0 :: "'t Way" where
  "Way0 = \<lparr>Id = 0, Tags = None, Metadata = None, Refs = []\<rparr>"

definition Relation0 :: "'t Relation" where
  "Relation0 = \<lparr>Id = 0, Tags = None, Metadata = None, Members = []\<rparr>"

definition DiffElem0 :: "('f, 't) DiffElem" where
  "DiffElem0 = \<lparr>Add = False, Mod = False, Del = False, Node = None, Way = None, Rel = None\<rparr>"

subsection \<open>Tokens and the state of the loop\<close>

text \<open>
  The tokens of \<open>encoding/xml\<close>. Of a name only \<open>Name.Local\<close> is read, so an element is
  its local name and an attribute a pair of local name and value.
\<close>

type_synonym Attr = "string \<times> string"

datatype Token =
  StartElement string "Attr list"
| EndElement string
| CharData string
| Comment string
| ProcInst string string
| Directive string

text \<open>The variables of \<open>parse\<close> that live across iterations (lines 58-66).\<close>

record ('f, 't) Vars =
  v_add :: bool
  v_mod :: bool
  v_del :: bool
  v_tags :: TagMap
  v_newElem :: bool
  v_node :: "('f, 't) Node"
  v_way :: "'t Way"
  v_rel :: "'t Relation"

definition Vars0 :: "('f::zero, 't) Vars" where
  "Vars0 = \<lparr>v_add = False, v_mod = False, v_del = False, v_tags = Map.empty,
     v_newElem = False, v_node = Node0, v_way = Way0, v_rel = Relation0\<rparr>"

subsection \<open>The loops over attributes\<close>

text \<open>\<open>setElemMetadata\<close> (lines 210-229); \<open>int(v)\<close> is the identity where \<open>int\<close> has 64 bits.\<close>

definition metadata_attr :: "('f, 't) Lib \<Rightarrow> 't Metadata \<Rightarrow> Attr \<Rightarrow> 't Metadata" where
  "metadata_attr L m a =
     (if fst a = ''version'' then m\<lparr>Version := fst (ParseInt (snd a))\<rparr>
      else if fst a = ''uid'' then m\<lparr>UserId := fst (ParseInt (snd a))\<rparr>
      else if fst a = ''user'' then m\<lparr>UserName := snd a\<rparr>
      else if fst a = ''changeset'' then m\<lparr>Changeset := fst (ParseInt (snd a))\<rparr>
      else if fst a = ''timestamp'' then m\<lparr>Timestamp := fst (time_Parse L (snd a))\<rparr>
      else m)"

definition setElemMetadata ::
  "('f, 't::zero) Lib \<Rightarrow> Attr list \<Rightarrow> ('t, 'z) OSMElem_scheme \<Rightarrow> ('t, 'z) OSMElem_scheme" where
  "setElemMetadata L attrs elem = elem\<lparr>Metadata := Some (foldl (metadata_attr L) Metadata0 attrs)\<rparr>"

text \<open>Lines 92-101: the attributes of \<open>node\<close>.\<close>

definition node_attr :: "('f, 't) Lib \<Rightarrow> ('f, 't) Node \<Rightarrow> Attr \<Rightarrow> ('f, 't) Node" where
  "node_attr L n a =
     (if fst a = ''id'' then n\<lparr>Id := fst (ParseInt (snd a))\<rparr>
      else if fst a = ''lat'' then n\<lparr>Lat := fst (ParseFloat L (snd a))\<rparr>
      else if fst a = ''lon'' then n\<lparr>Long := fst (ParseFloat L (snd a))\<rparr>
      else n)"

text \<open>Lines 106-110 and 115-119: the attributes of \<open>way\<close> and of \<open>relation\<close>.\<close>

definition id_attr :: "('t, 'z) OSMElem_scheme \<Rightarrow> Attr \<Rightarrow> ('t, 'z) OSMElem_scheme" where
  "id_attr e a = (if fst a = ''id'' then e\<lparr>Id := fst (ParseInt (snd a))\<rparr> else e)"

text \<open>Lines 124-129: the attributes of \<open>nd\<close>.\<close>

definition nd_attr :: "'t Way \<Rightarrow> Attr \<Rightarrow> 't Way" where
  "nd_attr w a = (if fst a = ''ref'' then w\<lparr>Refs := Refs w @ [fst (ParseInt (snd a))]\<rparr> else w)"

text \<open>
  Lines 131-151: the attributes of \<open>member\<close>. \<open>None\<close> is \<open>continue NextToken\<close>, which
  leaves the loop over the attributes and skips the \<open>append\<close> of line 152.
\<close>

fun member_attrs :: "('f, 't) Lib \<Rightarrow> Member \<Rightarrow> Attr list \<Rightarrow> Member option" where
  "member_attrs L member [] = Some member"
| "member_attrs L member (a # attrs) =
     (if fst a = ''type'' then
        (case MemberTypeValues L (snd a) of
           None \<Rightarrow> None
         | Some t \<Rightarrow> member_attrs L (member\<lparr>Type := t\<rparr>) attrs)
      else if fst a = ''role'' then member_attrs L (member\<lparr>Role := snd a\<rparr>) attrs
      else if fst a = ''ref'' then
        (case snd (ParseInt (snd a)) of
           Some err \<Rightarrow> None
         | None \<Rightarrow> member_attrs L (member\<lparr>Member.Id := fst (ParseInt (snd a))\<rparr>) attrs)
      else member_attrs L member attrs)"

text \<open>Lines 154-162: the attributes of \<open>tag\<close>, on the pair of \<open>k\<close> and \<open>v\<close>.\<close>

definition tag_attr :: "string \<times> string \<Rightarrow> Attr \<Rightarrow> string \<times> string" where
  "tag_attr kv a =
     (if fst a = ''k'' then (snd a, snd kv)
      else if fst a = ''v'' then (fst kv, snd a)
      else kv)"

subsection \<open>One token\<close>

text \<open>Lines 77-167: a start element. The default case only logs a warning.\<close>

definition start_element ::
  "('f, 't::zero) Lib \<Rightarrow> bool \<Rightarrow> ('f, 't) Vars \<Rightarrow> string \<Rightarrow> Attr list \<Rightarrow> ('f, 't) Vars" where
  "start_element L metadata s name attrs =
     (if name = ''create'' then s\<lparr>v_add := True, v_mod := False, v_del := False\<rparr>
      else if name = ''modify'' then s\<lparr>v_add := False, v_mod := True, v_del := False\<rparr>
      else if name = ''delete'' then s\<lparr>v_add := False, v_mod := False, v_del := True\<rparr>
      else if name = ''node'' then
        (let n = foldl (node_attr L) (v_node s) attrs
         in s\<lparr>v_node := if metadata then setElemMetadata L attrs n else n\<rparr>)
      else if name = ''way'' then
        (let w = foldl id_attr (v_way s) attrs
         in s\<lparr>v_way := if metadata then setElemMetadata L attrs w else w\<rparr>)
      else if name = ''relation'' then
        (let r = foldl id_attr (v_rel s) attrs
         in s\<lparr>v_rel := if metadata then setElemMetadata L attrs r else r\<rparr>)
      else if name = ''nd'' then s\<lparr>v_way := foldl nd_attr (v_way s) attrs\<rparr>
      else if name = ''member'' then
        (case member_attrs L Member0 attrs of
           None \<Rightarrow> s
         | Some member \<Rightarrow> s\<lparr>v_rel := (v_rel s)\<lparr>Members := Members (v_rel s) @ [member]\<rparr>\<rparr>)
      else if name = ''tag'' then
        (let kv = foldl tag_attr ([], []) attrs
         in s\<lparr>v_tags := (v_tags s)(fst kv \<mapsto> snd kv)\<rparr>)
      else s)"

text \<open>
  The result of one iteration: \<open>Return\<close> leaves \<open>parse\<close> (line 193), \<open>Continue\<close> goes on
  with the new variables and the event sent on \<open>elems\<close>, if any.
\<close>

datatype ('s, 'e) Step = Return | Continue 's "'e option"

text \<open>Lines 196-205.\<close>

definition emit :: "('f, 't) Vars \<Rightarrow> ('f, 't) DiffElem \<Rightarrow> (('f, 't) Vars, ('f, 't) DiffElem) Step" where
  "emit s e =
     (if v_newElem s then
        Continue
          (s\<lparr>v_tags := if v_tags s \<noteq> Map.empty then Map.empty else v_tags s, v_newElem := False\<rparr>)
          (Some (e\<lparr>Add := v_add s, Del := v_del s, Mod := v_mod s\<rparr>))
      else Continue s None)"

text \<open>Lines 168-205: an end element.\<close>

definition end_element ::
  "('f::zero, 't) Vars \<Rightarrow> string \<Rightarrow> (('f, 't) Vars, ('f, 't) DiffElem) Step" where
  "end_element s name =
     (if name = ''node'' then
        emit (s\<lparr>v_node := Node0, v_newElem := True\<rparr>)
          (DiffElem0\<lparr>Node := Some (if v_tags s \<noteq> Map.empty then (v_node s)\<lparr>Tags := Some (v_tags s)\<rparr>
                                     else v_node s)\<rparr>)
      else if name = ''way'' then
        emit (s\<lparr>v_way := Way0, v_newElem := True\<rparr>)
          (DiffElem0\<lparr>Way := Some (if v_tags s \<noteq> Map.empty then (v_way s)\<lparr>Tags := Some (v_tags s)\<rparr>
                                    else v_way s)\<rparr>)
      else if name = ''relation'' then
        emit (s\<lparr>v_rel := Relation0, v_newElem := True\<rparr>)
          (DiffElem0\<lparr>Rel := Some (if v_tags s \<noteq> Map.empty then (v_rel s)\<lparr>Tags := Some (v_tags s)\<rparr>
                                    else v_rel s)\<rparr>)
      else if name = ''osmChange'' then Return
      else emit s DiffElem0)"

text \<open>Lines 76-206: the type switch; other tokens are not handled.\<close>

fun step ::
  "('f::zero, 't::zero) Lib \<Rightarrow> bool \<Rightarrow> ('f, 't) Vars \<Rightarrow> Token \<Rightarrow> (('f, 't) Vars, ('f, 't) DiffElem) Step" where
  "step L metadata s (StartElement name attrs) = Continue (start_element L metadata s name attrs) None"
| "step L metadata s (EndElement name) = end_element s name"
| "step L metadata s _ = Continue s None"

subsection \<open>The parse\<close>

text \<open>
  What \<open>parse\<close> sends, in the order of the sends: an event on \<open>elems\<close> or an error on
  \<open>errc\<close>. Both channels are closed when \<open>parse\<close> returns, which is the end of the list.
\<close>

datatype ('e, 'x) Output = Elem 'e | Err 'x

text \<open>
  What the file gives: \<open>os.Open\<close> fails, or \<open>gzip.NewReader\<close> fails, or the decoder
  yields tokens until \<open>decoder.Token\<close> returns an error (\<open>io.EOF\<close> at the end of the input
  at the latest).
\<close>

datatype 'x Source = OpenError 'x | GzipError 'x | Tokens "Token list" 'x

text \<open>Lines 68-207: the loop \<open>NextToken\<close>.\<close>

fun parse_loop ::
  "('f::zero, 't::zero) Lib \<Rightarrow> bool \<Rightarrow> ('f, 't) Vars \<Rightarrow> Token list \<Rightarrow> 'x \<Rightarrow>
     (('f, 't) DiffElem, 'x) Output list" where
  "parse_loop L metadata s [] err = [Err err]"
| "parse_loop L metadata s (token # tokens) err =
     (case step L metadata s token of
        Return \<Rightarrow> []
      | Continue s' None \<Rightarrow> parse_loop L metadata s' tokens err
      | Continue s' (Some e) \<Rightarrow> Elem e # parse_loop L metadata s' tokens err)"

text \<open>Lines 39-208.\<close>

fun parse ::
  "('f::zero, 't::zero) Lib \<Rightarrow> bool \<Rightarrow> 'x Source \<Rightarrow> (('f, 't) DiffElem, 'x) Output list" where
  "parse L metadata (OpenError err) = [Err err]"
| "parse L metadata (GzipError err) = [Err err]"
| "parse L metadata (Tokens tokens err) = parse_loop L metadata Vars0 tokens err"

subsection \<open>Change files that follow the schema\<close>

text \<open>
  The documents of the schema of the input format: \<open>osmChange\<close> holds sections
  (\<open>create\<close>, \<open>modify\<close>, \<open>delete\<close>), a section holds features (\<open>node\<close>, \<open>way\<close>,
  \<open>relation\<close>), a feature holds childless children: \<open>tag\<close> anywhere, \<open>nd\<close> in a way,
  \<open>member\<close> in a relation. The decoder yields a start and an end token for every element,
  also for a self-closing one.
\<close>

datatype Child = Child string "Attr list"

datatype Feature = Feature string "Attr list" "Child list"

datatype Section = Section string "Attr list" "Feature list"

datatype Doc = Doc "Attr list" "Section list"

fun child_tokens :: "Child \<Rightarrow> Token list" where
  "child_tokens (Child name attrs) = [StartElement name attrs, EndElement name]"

fun feature_tokens :: "Feature \<Rightarrow> Token list" where
  "feature_tokens (Feature name attrs cs) =
     StartElement name attrs # concat (map child_tokens cs) @ [EndElement name]"

fun section_tokens :: "Section \<Rightarrow> Token list" where
  "section_tokens (Section name attrs fs) =
     StartElement name attrs # concat (map feature_tokens fs) @ [EndElement name]"

fun doc_tokens :: "Doc \<Rightarrow> Token list" where
  "doc_tokens (Doc attrs ss) =
     StartElement ''osmChange'' attrs # concat (map section_tokens ss) @ [EndElement ''osmChange'']"

fun child_ok :: "string \<Rightarrow> Child \<Rightarrow> bool" where
  "child_ok f (Child name attrs) =
     (name = ''tag'' \<or> (f = ''way'' \<and> name = ''nd'') \<or> (f = ''relation'' \<and> name = ''member''))"

fun feature_ok :: "Feature \<Rightarrow> bool" where
  "feature_ok (Feature name attrs cs) =
     ((name = ''node'' \<or> name = ''way'' \<or> name = ''relation'') \<and> list_all (child_ok name) cs)"

fun section_ok :: "Section \<Rightarrow> bool" where
  "section_ok (Section name attrs fs) =
     ((name = ''create'' \<or> name = ''modify'' \<or> name = ''delete'') \<and> list_all feature_ok fs)"

fun schema_doc :: "Doc \<Rightarrow> bool" where
  "schema_doc (Doc attrs ss) = list_all section_ok ss"

text \<open>The features of a document in the order in which they close, each with the name of its section.\<close>

fun section_features :: "Section \<Rightarrow> (string \<times> Feature) list" where
  "section_features (Section name attrs fs) = map (Pair name) fs"

fun doc_features :: "Doc \<Rightarrow> (string \<times> Feature) list" where
  "doc_features (Doc attrs ss) = concat (map section_features ss)"

text \<open>
  Character data, comments, processing instructions and directives may stand between the
  elements; \<open>is_element\<close> selects the start and end tokens.
\<close>

fun is_element :: "Token \<Rightarrow> bool" where
  "is_element (StartElement name attrs) = True"
| "is_element (EndElement name) = True"
| "is_element _ = False"

text \<open>What the children of a feature leave in the variables.\<close>

fun child_attrs :: "Child \<Rightarrow> Attr list" where
  "child_attrs (Child name attrs) = attrs"

fun child_name :: "Child \<Rightarrow> string" where
  "child_name (Child name attrs) = name"

definition children_named :: "string \<Rightarrow> Child list \<Rightarrow> Attr list list" where
  "children_named name cs = map child_attrs (filter (\<lambda>c. child_name c = name) cs)"

definition put_tag :: "TagMap \<Rightarrow> Attr list \<Rightarrow> TagMap" where
  "put_tag tags attrs = tags(fst (foldl tag_attr ([], []) attrs) \<mapsto> snd (foldl tag_attr ([], []) attrs))"

definition children_tags :: "Child list \<Rightarrow> TagMap" where
  "children_tags cs = foldl put_tag Map.empty (children_named ''tag'' cs)"

definition attr_refs :: "Attr list \<Rightarrow> int list" where
  "attr_refs attrs = map (\<lambda>a. fst (ParseInt (snd a))) (filter (\<lambda>a. fst a = ''ref'') attrs)"

definition children_refs :: "Child list \<Rightarrow> int list" where
  "children_refs cs = concat (map attr_refs (children_named ''nd'' cs))"

definition children_members :: "('f, 't) Lib \<Rightarrow> Child list \<Rightarrow> Member list" where
  "children_members L cs = List.map_filter (member_attrs L Member0) (children_named ''member'' cs)"

text \<open>
  The event of a feature read with the flags \<open>a\<close>, \<open>m\<close>, \<open>d\<close> from fresh variables: the
  element is built from the attributes of the start tag, then from the children, and
  the tags are attached at the end tag if there are any.
\<close>

definition with_meta ::
  "('f, 't::zero) Lib \<Rightarrow> bool \<Rightarrow> Attr list \<Rightarrow> ('t, 'z) OSMElem_scheme \<Rightarrow> ('t, 'z) OSMElem_scheme" where
  "with_meta L metadata attrs e = (if metadata then setElemMetadata L attrs e else e)"

definition with_tags :: "TagMap \<Rightarrow> ('t, 'z) OSMElem_scheme \<Rightarrow> ('t, 'z) OSMElem_scheme" where
  "with_tags tags e = (if tags \<noteq> Map.empty then e\<lparr>Tags := Some tags\<rparr> else e)"

definition flag_vars :: "bool \<Rightarrow> bool \<Rightarrow> bool \<Rightarrow> ('f::zero, 't) Vars" where
  "flag_vars a m d = Vars0\<lparr>v_add := a, v_mod := m, v_del := d\<rparr>"

fun feature_event ::
  "('f::zero, 't::zero) Lib \<Rightarrow> bool \<Rightarrow> bool \<Rightarrow> bool \<Rightarrow> bool \<Rightarrow> Feature \<Rightarrow> ('f, 't) DiffElem" where
  "feature_event L metadata a m d (Feature name attrs cs) =
     (if name = ''node'' then
        DiffElem0\<lparr>Node := Some (with_tags (children_tags cs)
          (with_meta L metadata attrs (foldl (node_attr L) Node0 attrs)))\<rparr>
      else if name = ''way'' then
        DiffElem0\<lparr>Way := Some (with_tags (children_tags cs)
          ((with_meta L metadata attrs (foldl id_attr Way0 attrs))\<lparr>Refs := children_refs cs\<rparr>))\<rparr>
      else
        DiffElem0\<lparr>Rel := Some (with_tags (children_tags cs)
          ((with_meta L metadata attrs (foldl id_attr Relation0 attrs))
             \<lparr>Members := children_members L cs\<rparr>))\<rparr>)
     \<lparr>Add := a, Del := d, Mod := m\<rparr>"

definition doc_events :: "('f::zero, 't::zero) Lib \<Rightarrow> bool \<Rightarrow> Doc \<Rightarrow> ('f, 't) DiffElem list" where
  "doc_events L metadata doc =
     map (\<lambda>(name, f). feature_event L metadata (name = ''create'') (name = ''modify'')
            (name = ''delete'') f)
       (doc_features doc)"

text \<open>The value of the last attribute of a name, the one a loop over the attributes ends with.\<close>

definition last_attr :: "string \<Rightarrow> Attr list \<Rightarrow> string option" where
  "last_attr name attrs =
     (if filter (\<lambda>a. fst a = name) attrs = [] then None
      else Some (snd (last (filter (\<lambda>a. fst a = name) attrs))))"

definition children_vars ::
  "('f, 't::zero) Lib \<Rightarrow> bool \<Rightarrow> ('f, 't) Vars \<Rightarrow> Child list \<Rightarrow> ('f, 't) Vars" where
  "children_vars L md s cs = foldl (\<lambda>s c. start_element L md s (child_name c) (child_attrs c)) s cs"

subsection \<open>Reading a document that follows the schema\<close>

lemma children_vars_Nil [simp]: "children_vars L md s [] = s"
  by (simp add: children_vars_def)

lemma children_vars_Cons [simp]:
  "children_vars L md s (Child name attrs # cs) =
     children_vars L md (start_element L md s name attrs) cs"
  by (simp add: children_vars_def)

lemma start_element_newElem [simp]:
  "v_newElem (start_element L md s name attrs) = v_newElem s"
  by (simp add: start_element_def Let_def split: option.splits)

lemma end_child:
  "\<not> v_newElem s \<Longrightarrow> name = ''tag'' \<or> name = ''nd'' \<or> name = ''member'' \<Longrightarrow>
   end_element s name = Continue s None"
  by (auto simp: end_element_def emit_def)

lemma parse_loop_children:
  "\<not> v_newElem s \<Longrightarrow> list_all (child_ok f) cs \<Longrightarrow>
   parse_loop L md s (concat (map child_tokens cs) @ rest) err =
     parse_loop L md (children_vars L md s cs) rest err"
proof (induction cs arbitrary: s)
  case Nil
  then show ?case by simp
next
  case (Cons c cs)
  obtain name attrs where c: "c = Child name attrs"
    by (cases c)
  from Cons.prems have nm: "name = ''tag'' \<or> name = ''nd'' \<or> name = ''member''"
    by (auto simp: c)
  have "parse_loop L md s (concat (map child_tokens (c # cs)) @ rest) err =
      parse_loop L md (start_element L md s name attrs) (concat (map child_tokens cs) @ rest) err"
    using Cons.prems(1) nm by (simp add: c end_child)
  also have "\<dots> = parse_loop L md (children_vars L md (start_element L md s name attrs) cs) rest err"
    using Cons.prems by (intro Cons.IH) simp_all
  finally show ?case
    by (simp add: c)
qed


lemma foldl_nd_attr: "foldl nd_attr w attrs = w\<lparr>Refs := Refs w @ attr_refs attrs\<rparr>"
  by (induction attrs arbitrary: w) (simp_all add: nd_attr_def attr_refs_def)

lemma foldl_foldl_nd_attr:
  "foldl (foldl nd_attr) w ass = w\<lparr>Refs := Refs w @ concat (map attr_refs ass)\<rparr>"
  by (induction ass arbitrary: w) (simp_all add: foldl_nd_attr)

lemma children_named_Nil [simp]: "children_named name [] = []"
  by (simp add: children_named_def)

lemma children_named_Cons [simp]:
  "children_named name (Child name' attrs # cs) =
     (if name' = name then attrs # children_named name cs else children_named name cs)"
  by (simp add: children_named_def)

lemma start_tag:
  "start_element L md s ''tag'' attrs = s\<lparr>v_tags := put_tag (v_tags s) attrs\<rparr>"
  by (simp add: start_element_def Let_def put_tag_def)

lemma start_nd:
  "start_element L md s ''nd'' attrs =
     s\<lparr>v_way := (v_way s)\<lparr>Refs := Refs (v_way s) @ attr_refs attrs\<rparr>\<rparr>"
  by (simp add: start_element_def foldl_nd_attr)

lemma start_member:
  "start_element L md s ''member'' attrs =
     s\<lparr>v_rel := (v_rel s)\<lparr>Members := Members (v_rel s) @
        (case member_attrs L Member0 attrs of None \<Rightarrow> [] | Some member \<Rightarrow> [member])\<rparr>\<rparr>"
  by (simp add: start_element_def split: option.splits)

lemma children_vars_eq:
  "list_all (child_ok f) cs \<Longrightarrow>
   children_vars L md s cs =
     s\<lparr>v_tags := foldl put_tag (v_tags s) (children_named ''tag'' cs),
       v_way := (v_way s)\<lparr>Refs := Refs (v_way s) @ children_refs cs\<rparr>,
       v_rel := (v_rel s)\<lparr>Members := Members (v_rel s) @ children_members L cs\<rparr>\<rparr>"
proof (induction cs arbitrary: s)
  case Nil
  then show ?case
    by (simp add: children_refs_def children_members_def List.map_filter_simps)
next
  case (Cons c cs)
  obtain name attrs where c: "c = Child name attrs"
    by (cases c)
  from Cons.prems have nm: "name = ''tag'' \<or> name = ''nd'' \<or> name = ''member''"
    and rest: "list_all (child_ok f) cs"
    by (auto simp: c)
  from nm show ?case
    unfolding c
  proof (elim disjE)
    assume "name = ''tag''"
    then show "children_vars L md s (Child name attrs # cs) =
      s\<lparr>v_tags := foldl put_tag (v_tags s) (children_named ''tag'' (Child name attrs # cs)),
        v_way := (v_way s)\<lparr>Refs := Refs (v_way s) @ children_refs (Child name attrs # cs)\<rparr>,
        v_rel := (v_rel s)\<lparr>Members := Members (v_rel s) @
          children_members L (Child name attrs # cs)\<rparr>\<rparr>"
      by (simp add: Cons.IH [OF rest] start_tag children_refs_def children_members_def)
  next
    assume "name = ''nd''"
    then show "children_vars L md s (Child name attrs # cs) =
      s\<lparr>v_tags := foldl put_tag (v_tags s) (children_named ''tag'' (Child name attrs # cs)),
        v_way := (v_way s)\<lparr>Refs := Refs (v_way s) @ children_refs (Child name attrs # cs)\<rparr>,
        v_rel := (v_rel s)\<lparr>Members := Members (v_rel s) @
          children_members L (Child name attrs # cs)\<rparr>\<rparr>"
      by (simp add: Cons.IH [OF rest] start_nd children_refs_def children_members_def)
  next
    assume "name = ''member''"
    then show "children_vars L md s (Child name attrs # cs) =
      s\<lparr>v_tags := foldl put_tag (v_tags s) (children_named ''tag'' (Child name attrs # cs)),
        v_way := (v_way s)\<lparr>Refs := Refs (v_way s) @ children_refs (Child name attrs # cs)\<rparr>,
        v_rel := (v_rel s)\<lparr>Members := Members (v_rel s) @
          children_members L (Child name attrs # cs)\<rparr>\<rparr>"
      by (simp add: Cons.IH [OF rest] start_member children_refs_def children_members_def
          List.map_filter_simps split: option.splits)
  qed
qed

lemma reset_tags [simp]: "(if tags \<noteq> Map.empty then Map.empty else tags) = (Map.empty :: TagMap)"
  by simp

lemma children_named_other:
  "list_all (child_ok f) cs \<Longrightarrow> name \<noteq> ''tag'' \<Longrightarrow> name \<noteq> f \<or> (f \<noteq> ''way'' \<and> f \<noteq> ''relation'') \<Longrightarrow>
   (f = ''way'' \<longrightarrow> name \<noteq> ''nd'') \<Longrightarrow> (f = ''relation'' \<longrightarrow> name \<noteq> ''member'') \<Longrightarrow>
   children_named name cs = []"
proof (induction cs)
  case Nil
  then show ?case by simp
next
  case (Cons c cs)
  then show ?case
    by (cases c) auto
qed

lemma node_children:
  assumes "list_all (child_ok ''node'') cs"
  shows "children_refs cs = []" and "children_members L cs = []"
  using children_named_other [OF assms, of "''nd''"] children_named_other [OF assms, of "''member''"]
  by (simp_all add: children_refs_def children_members_def List.map_filter_simps)

lemma way_children:
  assumes "list_all (child_ok ''way'') cs"
  shows "children_members L cs = []"
  using children_named_other [OF assms, of "''member''"]
  by (simp add: children_members_def List.map_filter_simps)

lemma relation_children:
  assumes "list_all (child_ok ''relation'') cs"
  shows "children_refs cs = []"
  using children_named_other [OF assms, of "''nd''"]
  by (simp add: children_refs_def)

lemma last_attr_Nil [simp]: "last_attr name [] = None"
  by (simp add: last_attr_def)

lemma last_attr_snoc [simp]:
  "last_attr name (attrs @ [a]) = (if fst a = name then Some (snd a) else last_attr name attrs)"
  by (simp add: last_attr_def)

lemma foldl_id_attr:
  "foldl id_attr e attrs =
     (case last_attr ''id'' attrs of None \<Rightarrow> e | Some v \<Rightarrow> e\<lparr>Id := fst (ParseInt v)\<rparr>)"
  by (induction attrs rule: rev_induct) (simp_all add: id_attr_def split: option.splits)

lemma foldl_id_attr_Refs [simp]: "Refs (foldl id_attr w attrs) = Refs w"
  by (simp add: foldl_id_attr split: option.splits)

lemma foldl_id_attr_Members [simp]: "Members (foldl id_attr r attrs) = Members r"
  by (simp add: foldl_id_attr split: option.splits)

lemma flag_vars_newElem [simp]: "\<not> v_newElem (flag_vars a m d)"
  by (simp add: flag_vars_def Vars0_def)

lemma parse_loop_feature:
  assumes "feature_ok f"
  shows "parse_loop L md (flag_vars a m d) (feature_tokens f @ rest) err =
           Elem (feature_event L md a m d f) # parse_loop L md (flag_vars a m d) rest err"
proof -
  obtain name attrs cs where f: "f = Feature name attrs cs"
    by (cases f)
  let ?s = "flag_vars a m d :: ('a, 'b) Vars"
  let ?s1 = "start_element L md ?s name attrs"
  from assms have nm: "name = ''node'' \<or> name = ''way'' \<or> name = ''relation''"
    and cs: "list_all (child_ok name) cs"
    by (simp_all add: f)
  have "parse_loop L md ?s (feature_tokens f @ rest) err =
      parse_loop L md ?s1 (concat (map child_tokens cs) @ EndElement name # rest) err"
    by (simp add: f)
  also have "\<dots> = parse_loop L md (children_vars L md ?s1 cs) (EndElement name # rest) err"
    by (rule parse_loop_children [OF _ cs]) simp
  finally have run: "parse_loop L md ?s (feature_tokens f @ rest) err =
      parse_loop L md (children_vars L md ?s1 cs) (EndElement name # rest) err" .
  from nm show ?thesis
  proof (elim disjE)
    assume n: "name = ''node''"
    have "end_element (children_vars L md ?s1 cs) name =
        Continue ?s (Some (feature_event L md a m d f))"
      using cs unfolding n f
      by (simp add: children_vars_eq [OF cs [unfolded n]] node_children
          start_element_def flag_vars_def Vars0_def end_element_def emit_def
          with_tags_def with_meta_def children_tags_def Way0_def Relation0_def)
    then show ?thesis
      by (simp add: run)
  next
    assume n: "name = ''way''"
    have "end_element (children_vars L md ?s1 cs) name =
        Continue ?s (Some (feature_event L md a m d f))"
      using cs unfolding n f
      by (simp add: children_vars_eq [OF cs [unfolded n]] way_children
          start_element_def flag_vars_def Vars0_def end_element_def emit_def
          with_tags_def with_meta_def children_tags_def Way0_def Relation0_def
          setElemMetadata_def)
    then show ?thesis
      by (simp add: run)
  next
    assume n: "name = ''relation''"
    have "end_element (children_vars L md ?s1 cs) name =
        Continue ?s (Some (feature_event L md a m d f))"
      using cs unfolding n f
      by (simp add: children_vars_eq [OF cs [unfolded n]] relation_children
          start_element_def flag_vars_def Vars0_def end_element_def emit_def
          with_tags_def with_meta_def children_tags_def Way0_def Relation0_def
          setElemMetadata_def)
    then show ?thesis
      by (simp add: run)
  qed
qed

lemma parse_loop_features:
  "list_all feature_ok fs \<Longrightarrow>
   parse_loop L md (flag_vars a m d) (concat (map feature_tokens fs) @ rest) err =
     map Elem (map (feature_event L md a m d) fs) @ parse_loop L md (flag_vars a m d) rest err"
proof (induction fs)
  case Nil
  then show ?case by simp
next
  case (Cons f fs)
  then have f: "feature_ok f" and fs: "list_all feature_ok fs"
    by simp_all
  have "parse_loop L md (flag_vars a m d) (concat (map feature_tokens (f # fs)) @ rest) err =
      parse_loop L md (flag_vars a m d)
        (feature_tokens f @ (concat (map feature_tokens fs) @ rest)) err"
    by simp
  also have "\<dots> = Elem (feature_event L md a m d f) #
      parse_loop L md (flag_vars a m d) (concat (map feature_tokens fs) @ rest) err"
    by (rule parse_loop_feature [OF f])
  finally show ?case
    by (simp add: Cons.IH [OF fs])
qed

lemma start_section:
  "name = ''create'' \<or> name = ''modify'' \<or> name = ''delete'' \<Longrightarrow>
   start_element L md (flag_vars a m d) name attrs =
     flag_vars (name = ''create'') (name = ''modify'') (name = ''delete'')"
  by (auto simp: start_element_def flag_vars_def)

lemma end_section:
  "\<not> v_newElem s \<Longrightarrow> name = ''create'' \<or> name = ''modify'' \<or> name = ''delete'' \<Longrightarrow>
   end_element s name = Continue s None"
  by (auto simp: end_element_def emit_def)

lemma parse_loop_section:
  assumes "section_ok (Section name attrs fs)"
  shows "parse_loop L md (flag_vars a m d) (section_tokens (Section name attrs fs) @ rest) err =
           map Elem (map (\<lambda>(name, f). feature_event L md (name = ''create'') (name = ''modify'')
                            (name = ''delete'') f) (section_features (Section name attrs fs))) @
           parse_loop L md
             (flag_vars (name = ''create'') (name = ''modify'') (name = ''delete'')) rest err"
proof -
  from assms have nm: "name = ''create'' \<or> name = ''modify'' \<or> name = ''delete''"
    and fs: "list_all feature_ok fs"
    by simp_all
  let ?s = "flag_vars (name = ''create'') (name = ''modify'') (name = ''delete'') :: ('a, 'b) Vars"
  have "parse_loop L md (flag_vars a m d) (section_tokens (Section name attrs fs) @ rest) err =
      parse_loop L md ?s (concat (map feature_tokens fs) @ (EndElement name # rest)) err"
    by (simp add: start_section [OF nm])
  also have "\<dots> = map Elem (map (feature_event L md (name = ''create'') (name = ''modify'')
        (name = ''delete'')) fs) @ parse_loop L md ?s (EndElement name # rest) err"
    by (rule parse_loop_features [OF fs])
  also have "parse_loop L md ?s (EndElement name # rest) err = parse_loop L md ?s rest err"
    by (simp add: end_section [OF _ nm])
  finally show ?thesis
    by (simp add: comp_def)
qed

lemma parse_loop_sections:
  "list_all section_ok ss \<Longrightarrow>
   parse_loop L md (flag_vars a m d)
       (concat (map section_tokens ss) @ EndElement ''osmChange'' # rest) err =
     map Elem (map (\<lambda>(name, f). feature_event L md (name = ''create'') (name = ''modify'')
                      (name = ''delete'') f) (concat (map section_features ss)))"
proof (induction ss arbitrary: a m d)
  case Nil
  then show ?case
    by (simp add: end_element_def)
next
  case (Cons sec ss)
  then have sec: "section_ok sec" and ss: "list_all section_ok ss"
    by simp_all
  obtain name attrs fs where s: "sec = Section name attrs fs"
    by (cases sec)
  have "parse_loop L md (flag_vars a m d)
      (concat (map section_tokens (sec # ss)) @ EndElement ''osmChange'' # rest) err =
    parse_loop L md (flag_vars a m d)
      (section_tokens (Section name attrs fs) @
        (concat (map section_tokens ss) @ EndElement ''osmChange'' # rest)) err"
    by (simp add: s)
  also have "\<dots> =
    map Elem (map (\<lambda>(name, f). feature_event L md (name = ''create'') (name = ''modify'')
        (name = ''delete'') f) (section_features (Section name attrs fs))) @
    parse_loop L md (flag_vars (name = ''create'') (name = ''modify'') (name = ''delete''))
      (concat (map section_tokens ss) @ EndElement ''osmChange'' # rest) err"
    by (rule parse_loop_section [OF sec [unfolded s]])
  finally show ?case
    by (simp add: Cons.IH [OF ss] s)
qed

lemma parse_loop_elements:
  "parse_loop L md s tokens err = parse_loop L md s (filter is_element tokens) err"
proof (induction tokens arbitrary: s)
  case Nil
  then show ?case by simp
next
  case (Cons token tokens)
  then show ?case
    by (cases token) (simp_all split: Step.splits option.splits)
qed

lemma Vars0_flag_vars: "Vars0 = flag_vars False False False"
  by (simp add: flag_vars_def Vars0_def)

lemma parse_doc:
  assumes "schema_doc doc" and "filter is_element tokens = doc_tokens doc"
  shows "parse L md (Tokens tokens err) = map Elem (doc_events L md doc)"
proof -
  obtain attrs ss where doc: "doc = Doc attrs ss"
    by (cases doc)
  from assms(1) have ss: "list_all section_ok ss"
    by (simp add: doc)
  have "parse L md (Tokens tokens err) = parse_loop L md Vars0 (doc_tokens doc) err"
    using parse_loop_elements [of L md Vars0 tokens err] by (simp add: assms(2))
  also have "\<dots> = parse_loop L md (flag_vars False False False)
      (concat (map section_tokens ss) @ EndElement ''osmChange'' # []) err"
    by (simp add: doc start_element_def Vars0_flag_vars)
  also have "\<dots> = map Elem (doc_events L md doc)"
    by (simp only: parse_loop_sections [OF ss] doc_events_def doc doc_features.simps)
  finally show ?thesis .
qed

subsection \<open>Claims about the parser\<close>

text \<open>
  C8: for the file
  \<open><osmChange><modify><node id="1" lat="1.0" lon="2.0"><tag k="amenity" v="restaurant"/></node></modify></osmChange>\<close>
  the parser sends exactly one event, with \<open>Mod\<close> true and \<open>Add\<close> and \<open>Del\<close> false, whose
  payload is a node with id 1, latitude 1.0, longitude 2.0 and the tags
  \<open>{amenity: restaurant}\<close>, and then closes the channels without an error. It holds
  for both \<open>Parse\<close> and \<open>ParseFull\<close>, for every \<open>ParseFloat\<close> that reads \<open>1.0\<close> and
  \<open>2.0\<close> as the numbers 1 and 2.
\<close>

theorem parse_scenario_A:
  fixes L :: "('f::{zero,numeral}, 't::zero) Lib"
  assumes "ParseFloat L ''1.0'' = (1, None)" and "ParseFloat L ''2.0'' = (2, None)"
  shows "parse L metadata
           (Tokens
              [StartElement ''osmChange'' [],
               StartElement ''modify'' [],
               StartElement ''node'' [(''id'', ''1''), (''lat'', ''1.0''), (''lon'', ''2.0'')],
               StartElement ''tag'' [(''k'', ''amenity''), (''v'', ''restaurant'')],
               EndElement ''tag'',
               EndElement ''node'',
               EndElement ''modify'',
               EndElement ''osmChange'']
              err) =
         [Elem \<lparr>Add = False, Mod = True, Del = False,
                 Node = Some \<lparr>Id = 1, Tags = Some [''amenity'' \<mapsto> ''restaurant''],
                               Metadata = (if metadata then Some Metadata0 else None),
                               Lat = 1, Long = 2\<rparr>,
                 Way = None, Rel = None\<rparr>]"
proof -
  have id: "ParseInt ''1'' = (1, None)"
    by (simp add: ParseInt_def ParseUint_def digit_of_def maxUint64_def)
  show ?thesis
    using assms
    by (simp add: start_element_def end_element_def emit_def node_attr_def tag_attr_def id
        Vars0_def Node0_def DiffElem0_def setElemMetadata_def metadata_attr_def)
qed

theorem parse_scenario_A_witness:
  "parse \<lparr>ParseFloat = (\<lambda>s. if s = ''1.0'' then (1 :: real, None)
                          else if s = ''2.0'' then (2, None) else (0, Some ErrSyntax)),
          time_Parse = (\<lambda>s. (0 :: int, True)),
          MemberTypeValues = [''node'' \<mapsto> 0, ''way'' \<mapsto> 1, ''relation'' \<mapsto> 2]\<rparr>
     False
     (Tokens
        [StartElement ''osmChange'' [],
         StartElement ''modify'' [],
         StartElement ''node'' [(''id'', ''1''), (''lat'', ''1.0''), (''lon'', ''2.0'')],
         StartElement ''tag'' [(''k'', ''amenity''), (''v'', ''restaurant'')],
         EndElement ''tag'',
         EndElement ''node'',
         EndElement ''modify'',
         EndElement ''osmChange'']
        ''EOF'') =
   [Elem \<lparr>Add = False, Mod = True, Del = False,
           Node = Some \<lparr>Id = 1, Tags = Some [''amenity'' \<mapsto> ''restaurant''], Metadata = None,
                         Lat = 1, Long = 2\<rparr>,
           Way = None, Rel = None\<rparr>]"
  using parse_scenario_A [of
      "\<lparr>ParseFloat = (\<lambda>s. if s = ''1.0'' then (1 :: real, None)
                          else if s = ''2.0'' then (2, None) else (0, Some ErrSyntax)),
        time_Parse = (\<lambda>s. (0 :: int, True)),
        MemberTypeValues = [''node'' \<mapsto> 0, ''way'' \<mapsto> 1, ''relation'' \<mapsto> 2]\<rparr>"
      False "''EOF''"]
  by simp

text \<open>
  What an event carries: the kinds of its payloads that are not nil, the operations whose
  flag is true, and the identifiers of its payloads.
\<close>

definition payload_kinds :: "('f, 't) DiffElem \<Rightarrow> string list" where
  "payload_kinds e =
     (if Node e \<noteq> None then [''node''] else []) @
     (if Way e \<noteq> None then [''way''] else []) @
     (if Rel e \<noteq> None then [''relation''] else [])"

definition true_flags :: "('f, 't) DiffElem \<Rightarrow> string list" where
  "true_flags e =
     (if Add e then [''create''] else []) @
     (if Mod e then [''modify''] else []) @
     (if Del e then [''delete''] else [])"

definition payload_ids :: "('f, 't) DiffElem \<Rightarrow> int list" where
  "payload_ids e =
     (case Node e of None \<Rightarrow> [] | Some n \<Rightarrow> [Id n]) @
     (case Way e of None \<Rightarrow> [] | Some w \<Rightarrow> [Id w]) @
     (case Rel e of None \<Rightarrow> [] | Some r \<Rightarrow> [Id r])"

fun feature_name :: "Feature \<Rightarrow> string" where
  "feature_name (Feature name attrs cs) = name"

fun feature_id :: "Feature \<Rightarrow> int" where
  "feature_id (Feature name attrs cs) =
     (case last_attr ''id'' attrs of None \<Rightarrow> 0 | Some v \<Rightarrow> fst (ParseInt v))"

lemma foldl_node_attr:
  "foldl (node_attr L) n attrs =
     n\<lparr>Id := (case last_attr ''id'' attrs of None \<Rightarrow> Id n | Some v \<Rightarrow> fst (ParseInt v)),
       Lat := (case last_attr ''lat'' attrs of None \<Rightarrow> Lat n | Some v \<Rightarrow> fst (ParseFloat L v)),
       Long := (case last_attr ''lon'' attrs of None \<Rightarrow> Long n | Some v \<Rightarrow> fst (ParseFloat L v))\<rparr>"
  by (induction attrs rule: rev_induct) (simp_all add: node_attr_def split: option.splits)

lemma with_tags_Id [simp]: "Id (with_tags tags e) = Id e"
  by (simp add: with_tags_def)

lemma with_meta_Id [simp]: "Id (with_meta L md attrs e) = Id e"
  by (simp add: with_meta_def setElemMetadata_def)

lemma feature_event_Add [simp]: "Add (feature_event L md a m d f) = a"
  by (cases f) simp

lemma feature_event_Mod [simp]: "Mod (feature_event L md a m d f) = m"
  by (cases f) simp

lemma feature_event_Del [simp]: "Del (feature_event L md a m d f) = d"
  by (cases f) simp

lemma feature_event_summary:
  assumes "feature_ok f"
  shows "payload_kinds (feature_event L md a m d f) = [feature_name f]"
    and "payload_ids (feature_event L md a m d f) = [feature_id f]"
proof -
  obtain name attrs cs where f: "f = Feature name attrs cs"
    by (cases f)
  from assms have nm: "name = ''node'' \<or> name = ''way'' \<or> name = ''relation''"
    by (simp add: f)
  from nm show "payload_kinds (feature_event L md a m d f) = [feature_name f]"
    by (auto simp: f payload_kinds_def DiffElem0_def)
  from nm show "payload_ids (feature_event L md a m d f) = [feature_id f]"
    by (auto simp: f payload_ids_def DiffElem0_def foldl_node_attr foldl_id_attr
        Node0_def Way0_def Relation0_def split: option.splits)
qed

lemma feature_event_flags:
  assumes "name = ''create'' \<or> name = ''modify'' \<or> name = ''delete''"
  shows "true_flags (feature_event L md (name = ''create'') (name = ''modify'') (name = ''delete'') f) =
           [name]"
  using assms by (elim disjE) (simp_all add: true_flags_def)

lemma doc_features_ok:
  assumes "schema_doc doc" and "(name, f) \<in> set (doc_features doc)"
  shows "feature_ok f" and "name = ''create'' \<or> name = ''modify'' \<or> name = ''delete''"
proof -
  obtain attrs ss where doc: "doc = Doc attrs ss"
    by (cases doc)
  from assms(2) obtain sec where sec: "sec \<in> set ss" "(name, f) \<in> set (section_features sec)"
    by (auto simp: doc)
  obtain sname sattrs fs where s: "sec = Section sname sattrs fs"
    by (cases sec)
  from assms(1) sec(1) have ok: "section_ok sec"
    by (simp add: doc list_all_iff)
  from sec(2) have "name = sname" "f \<in> set fs"
    by (auto simp: s)
  with ok show "feature_ok f" and "name = ''create'' \<or> name = ''modify'' \<or> name = ''delete''"
    by (simp_all add: s list_all_iff)
qed

text \<open>
  C3: for every change file that follows the schema (elements as in the schema, every
  \<open>node\<close>, \<open>way\<close> and \<open>relation\<close> inside a \<open>create\<close>, \<open>modify\<close> or \<open>delete\<close> section,
  with any character data, comments and processing instructions between the elements),
  the parser sends no error and exactly one event per feature, in the order in which the
  features close: the event of a feature has exactly one payload, of the feature's kind
  and with the feature's identifier, and exactly one true flag, that of its section.
\<close>

theorem one_event_per_feature:
  assumes "schema_doc doc" and "filter is_element tokens = doc_tokens doc"
  shows "\<exists>evs. parse L metadata (Tokens tokens err) = map Elem evs \<and>
           length evs = length (doc_features doc) \<and>
           map payload_kinds evs = map (\<lambda>(name, f). [feature_name f]) (doc_features doc) \<and>
           map true_flags evs = map (\<lambda>(name, f). [name]) (doc_features doc) \<and>
           map payload_ids evs = map (\<lambda>(name, f). [feature_id f]) (doc_features doc)"
proof (intro exI conjI)
  show "parse L metadata (Tokens tokens err) = map Elem (doc_events L metadata doc)"
    by (rule parse_doc [OF assms])
  show "length (doc_events L metadata doc) = length (doc_features doc)"
    by (simp add: doc_events_def)
  show "map payload_kinds (doc_events L metadata doc) =
      map (\<lambda>(name, f). [feature_name f]) (doc_features doc)"
    using doc_features_ok(1) [OF assms(1)]
    by (auto simp: doc_events_def feature_event_summary)
  show "map true_flags (doc_events L metadata doc) = map (\<lambda>(name, f). [name]) (doc_features doc)"
    unfolding doc_events_def map_map
  proof (rule map_cong [OF refl])
    fix x
    assume x: "x \<in> set (doc_features doc)"
    obtain name f where xf: "x = (name, f)"
      by (cases x)
    from doc_features_ok(2) [OF assms(1) x [unfolded xf]]
    show "(true_flags \<circ> (\<lambda>(name, f). feature_event L metadata (name = ''create'')
        (name = ''modify'') (name = ''delete'') f)) x = (case x of (name, f) \<Rightarrow> [name])"
      by (simp add: xf feature_event_flags)
  qed
  show "map payload_ids (doc_events L metadata doc) =
      map (\<lambda>(name, f). [feature_id f]) (doc_features doc)"
    using doc_features_ok(1) [OF assms(1)]
    by (auto simp: doc_events_def feature_event_summary)
qed

theorem one_event_per_feature_witness:
  "schema_doc
     (Doc [(''version'', ''0.6'')]
        [Section ''create'' []
           [Feature ''node'' [(''id'', ''7''), (''lat'', ''1.5''), (''lon'', ''2.5'')]
              [Child ''tag'' [(''k'', ''amenity''), (''v'', ''cafe'')]]],
         Section ''delete'' []
           [Feature ''way'' [(''id'', ''8'')] [Child ''nd'' [(''ref'', ''7'')]],
            Feature ''relation'' [(''id'', ''9'')]
              [Child ''member'' [(''type'', ''way''), (''ref'', ''8''), (''role'', ''outer'')]]]]) \<and>
   (\<exists>evs.
      parse \<lparr>ParseFloat = (\<lambda>s. (0 :: real, Some ErrSyntax)), time_Parse = (\<lambda>s. (0 :: int, True)),
             MemberTypeValues = [''node'' \<mapsto> 0, ''way'' \<mapsto> 1, ''relation'' \<mapsto> 2]\<rparr>
        False
        (Tokens
           [ProcInst ''xml'' ''version'', StartElement ''osmChange'' [(''version'', ''0.6'')],
            CharData '' '', StartElement ''create'' [],
            StartElement ''node'' [(''id'', ''7''), (''lat'', ''1.5''), (''lon'', ''2.5'')],
            CharData '' '', StartElement ''tag'' [(''k'', ''amenity''), (''v'', ''cafe'')],
            EndElement ''tag'', EndElement ''node'', EndElement ''create'',
            Comment ''removed'', StartElement ''delete'' [],
            StartElement ''way'' [(''id'', ''8'')], StartElement ''nd'' [(''ref'', ''7'')],
            EndElement ''nd'', EndElement ''way'',
            StartElement ''relation'' [(''id'', ''9'')],
            StartElement ''member'' [(''type'', ''way''), (''ref'', ''8''), (''role'', ''outer'')],
            EndElement ''member'', EndElement ''relation'', EndElement ''delete'',
            CharData '' '', EndElement ''osmChange'']
           ''EOF'') = map Elem evs \<and>
      length evs = 3 \<and>
      map payload_kinds evs = [[''node''], [''way''], [''relation'']] \<and>
      map true_flags evs = [[''create''], [''delete''], [''delete'']] \<and>
      map payload_ids evs = [[7], [8], [9]])"
proof -
  let ?doc = "Doc [(''version'', ''0.6'')]
        [Section ''create'' []
           [Feature ''node'' [(''id'', ''7''), (''lat'', ''1.5''), (''lon'', ''2.5'')]
              [Child ''tag'' [(''k'', ''amenity''), (''v'', ''cafe'')]]],
         Section ''delete'' []
           [Feature ''way'' [(''id'', ''8'')] [Child ''nd'' [(''ref'', ''7'')]],
            Feature ''relation'' [(''id'', ''9'')]
              [Child ''member'' [(''type'', ''way''), (''ref'', ''8''), (''role'', ''outer'')]]]]"
  let ?tokens = "[ProcInst ''xml'' ''version'', StartElement ''osmChange'' [(''version'', ''0.6'')],
            CharData '' '', StartElement ''create'' [],
            StartElement ''node'' [(''id'', ''7''), (''lat'', ''1.5''), (''lon'', ''2.5'')],
            CharData '' '', StartElement ''tag'' [(''k'', ''amenity''), (''v'', ''cafe'')],
            EndElement ''tag'', EndElement ''node'', EndElement ''create'',
            Comment ''removed'', StartElement ''delete'' [],
            StartElement ''way'' [(''id'', ''8'')], StartElement ''nd'' [(''ref'', ''7'')],
            EndElement ''nd'', EndElement ''way'',
            StartElement ''relation'' [(''id'', ''9'')],
            StartElement ''member'' [(''type'', ''way''), (''ref'', ''8''), (''role'', ''outer'')],
            EndElement ''member'', EndElement ''relation'', EndElement ''delete'',
            CharData '' '', EndElement ''osmChange'']"
  have doc: "schema_doc ?doc"
    by simp
  have tokens: "filter is_element ?tokens = doc_tokens ?doc"
    by simp
  have ids: "fst (ParseInt ''7'') = 7" "fst (ParseInt ''8'') = 8" "fst (ParseInt ''9'') = 9"
    by (simp_all add: ParseInt_def ParseUint_def digit_of_def maxUint64_def)
  from one_event_per_feature [OF doc tokens,
      of "\<lparr>ParseFloat = (\<lambda>s. (0 :: real, Some ErrSyntax)), time_Parse = (\<lambda>s. (0 :: int, True)),
            MemberTypeValues = [''node'' \<mapsto> 0, ''way'' \<mapsto> 1, ''relation'' \<mapsto> 2]\<rparr>"
        False "''EOF''"] doc
  show ?thesis
    by (simp add: last_attr_def ids eval_nat_numeral del: parse.simps)
qed

text \<open>
  Facts about every token stream, also one that does not follow the schema: which tokens
  send an event, and the flags the variables hold.
\<close>

fun closes_feature :: "Token \<Rightarrow> bool" where
  "closes_feature (EndElement name) = (name = ''node'' \<or> name = ''way'' \<or> name = ''relation'')"
| "closes_feature _ = False"

fun opens_section :: "Token \<Rightarrow> bool" where
  "opens_section (StartElement name attrs) =
     (name = ''create'' \<or> name = ''modify'' \<or> name = ''delete'')"
| "opens_section _ = False"

definition var_flags :: "('f, 't) Vars \<Rightarrow> string list" where
  "var_flags s =
     (if v_add s then [''create''] else []) @
     (if v_mod s then [''modify''] else []) @
     (if v_del s then [''delete''] else [])"

lemma start_element_flags:
  "var_flags (start_element L md s name attrs) =
     (if name = ''create'' \<or> name = ''modify'' \<or> name = ''delete'' then [name] else var_flags s)"
  by (simp add: start_element_def var_flags_def Let_def split: option.splits)

lemma end_element_feature:
  assumes "\<not> v_newElem s" and "name = ''node'' \<or> name = ''way'' \<or> name = ''relation''"
  shows "\<exists>s' e. end_element s name = Continue s' (Some e) \<and> \<not> v_newElem s' \<and>
           var_flags s' = var_flags s \<and> true_flags e = var_flags s \<and> payload_kinds e = [name]"
  using assms(2)
  by (elim disjE)
    (simp_all add: end_element_def emit_def var_flags_def true_flags_def payload_kinds_def
      DiffElem0_def)

lemma end_element_other:
  assumes "\<not> v_newElem s" and "name \<noteq> ''node''" and "name \<noteq> ''way''" and "name \<noteq> ''relation''"
    and "name \<noteq> ''osmChange''"
  shows "end_element s name = Continue s None"
  using assms by (simp add: end_element_def emit_def)

lemma step_token:
  assumes "\<not> v_newElem s" and "token \<noteq> EndElement ''osmChange''"
  shows "\<exists>s' eo. step L md s token = Continue s' eo \<and> \<not> v_newElem s' \<and>
           var_flags s' = (if opens_section token then var_flags s' else var_flags s) \<and>
           length (var_flags s') \<le> max 1 (length (var_flags s)) \<and>
           (case eo of
              None \<Rightarrow> \<not> closes_feature token
            | Some e \<Rightarrow> closes_feature token \<and> true_flags e = var_flags s \<and>
                length (payload_kinds e) = 1)"
proof (cases token)
  case (StartElement name attrs)
  then show ?thesis
    using assms(1) by (simp add: start_element_flags)
next
  case (EndElement name)
  show ?thesis
  proof (cases "name = ''node'' \<or> name = ''way'' \<or> name = ''relation''")
    case True
    from end_element_feature [OF assms(1) True] obtain s' e where
      "end_element s name = Continue s' (Some e)" "\<not> v_newElem s'"
      "var_flags s' = var_flags s" "true_flags e = var_flags s" "payload_kinds e = [name]"
      by blast
    then show ?thesis
      using True by (simp add: EndElement)
  next
    case False
    then have "end_element s name = Continue s None"
      using assms by (intro end_element_other) (simp_all add: EndElement)
    then show ?thesis
      using False assms(1) by (simp add: EndElement)
  qed
qed (use assms(1) in simp_all)

lemma prefix_run:
  assumes "\<not> v_newElem s" and "EndElement ''osmChange'' \<notin> set pre"
  shows "\<exists>evs s'. \<not> v_newElem s' \<and>
           (\<forall>rest. parse_loop L md s (pre @ rest) err = map Elem evs @ parse_loop L md s' rest err) \<and>
           length evs = length (filter closes_feature pre) \<and>
           length (var_flags s') \<le> max 1 (length (var_flags s)) \<and>
           (\<forall>e\<in>set evs. length (true_flags e) \<le> max 1 (length (var_flags s))) \<and>
           (\<not> list_ex opens_section pre \<longrightarrow>
              var_flags s' = var_flags s \<and> (\<forall>e\<in>set evs. true_flags e = var_flags s))"
  using assms
proof (induction pre arbitrary: s)
  case Nil
  show ?case
    by (rule exI [of _ "[]"], rule exI [of _ s]) (simp add: Nil.prems)
next
  case (Cons token pre)
  from Cons.prems have tok: "token \<noteq> EndElement ''osmChange''"
    and pre: "EndElement ''osmChange'' \<notin> set pre"
    by auto
  from step_token [OF Cons.prems(1) tok, of L md] obtain s1 eo where
    step: "step L md s token = Continue s1 eo" and n1: "\<not> v_newElem s1"
    and fl: "var_flags s1 = (if opens_section token then var_flags s1 else var_flags s)"
    and le: "length (var_flags s1) \<le> max 1 (length (var_flags s))"
    and eo: "case eo of
              None \<Rightarrow> \<not> closes_feature token
            | Some e \<Rightarrow> closes_feature token \<and> true_flags e = var_flags s \<and>
                length (payload_kinds e) = 1"
    by blast
  from Cons.IH [OF n1 pre] obtain evs s' where
    n': "\<not> v_newElem s'"
    and run: "\<And>rest. parse_loop L md s1 (pre @ rest) err = map Elem evs @ parse_loop L md s' rest err"
    and len: "length evs = length (filter closes_feature pre)"
    and le': "length (var_flags s') \<le> max 1 (length (var_flags s1))"
    and ev: "\<forall>e\<in>set evs. length (true_flags e) \<le> max 1 (length (var_flags s1))"
    and nosec: "\<not> list_ex opens_section pre \<longrightarrow>
        var_flags s' = var_flags s1 \<and> (\<forall>e\<in>set evs. true_flags e = var_flags s1)"
    by blast
  let ?evs = "(case eo of None \<Rightarrow> [] | Some e \<Rightarrow> [e]) @ evs"
  show ?case
  proof (intro exI [of _ ?evs] exI [of _ s'] conjI allI impI)
    show "\<not> v_newElem s'"
      by (rule n')
    show "parse_loop L md s ((token # pre) @ rest) err =
        map Elem ?evs @ parse_loop L md s' rest err" for rest
      by (simp add: step run split: option.splits)
    show "length ?evs = length (filter closes_feature (token # pre))"
      using eo by (simp add: len split: option.splits)
    show "length (var_flags s') \<le> max 1 (length (var_flags s))"
      using le le' by simp
    show "\<forall>e\<in>set ?evs. length (true_flags e) \<le> max 1 (length (var_flags s))"
      using eo ev le by (auto split: option.splits)
  next
    assume a: "\<not> list_ex opens_section (token # pre)"
    then have s1: "var_flags s1 = var_flags s"
      using fl by simp
    from a nosec show "var_flags s' = var_flags s"
      by (simp add: s1)
    from a nosec eo show "\<forall>e\<in>set ?evs. true_flags e = var_flags s"
      by (auto simp: s1 split: option.splits)
  qed
qed

lemma Vars0_newElem [simp]: "\<not> v_newElem Vars0"
  by (simp add: Vars0_def)

lemma Vars0_flags [simp]: "var_flags Vars0 = []"
  by (simp add: Vars0_def var_flags_def)

text \<open>
  C4: a failure of \<open>os.Open\<close> or of \<open>gzip.NewReader\<close> sends the error alone; a failure of
  \<open>decoder.Token\<close> before \<open>osmChange\<close> has closed sends the error after one event for
  each feature that has closed, so none for a feature in progress; nothing is sent after
  the error. A stream that reaches the end of \<open>osmChange\<close> ends without an error. So
  every parse sends a list of events, followed either by nothing or by exactly one error.
\<close>

theorem parse_fatal_errors:
  fixes L :: "('f::zero, 't::zero) Lib" and err :: 'x and src :: "'x Source"
  shows
  "parse L metadata (OpenError err) = [Err err] \<and>
   parse L metadata (GzipError err) = [Err err] \<and>
   (EndElement ''osmChange'' \<notin> set tokens \<longrightarrow>
      (\<exists>evs. parse L metadata (Tokens tokens err) = map Elem evs @ [Err err] \<and>
             length evs = length (filter closes_feature tokens))) \<and>
   (EndElement ''osmChange'' \<notin> set pre \<longrightarrow>
      (\<exists>evs. parse L metadata (Tokens (pre @ EndElement ''osmChange'' # post) err) = map Elem evs \<and>
             length evs = length (filter closes_feature pre))) \<and>
   (\<exists>evs. parse L metadata src = map Elem evs \<or>
          (\<exists>x. parse L metadata src = map Elem evs @ [Err x]))"
proof (intro conjI impI)
  show "parse L metadata (OpenError err) = [Err err]"
    by simp
  show "parse L metadata (GzipError err) = [Err err]"
    by simp
  show failing: "\<exists>evs. parse L metadata (Tokens ts x) = map Elem evs @ [Err x] \<and>
      length evs = length (filter closes_feature ts)"
    if "EndElement ''osmChange'' \<notin> set ts" for ts and x :: 'x
  proof -
    from prefix_run [OF Vars0_newElem that, of L metadata x] obtain evs s' where
      "\<And>rest. parse_loop L metadata Vars0 (ts @ rest) x =
         map Elem evs @ parse_loop L metadata s' rest x"
      and len: "length evs = length (filter closes_feature ts)"
      by blast
    from this(1) [of "[]"] have "parse L metadata (Tokens ts x) = map Elem evs @ [Err x]"
      by simp
    with len show ?thesis
      by blast
  qed
  show closing: "\<exists>evs. parse L metadata (Tokens (p @ EndElement ''osmChange'' # q) x) = map Elem evs \<and>
      length evs = length (filter closes_feature p)"
    if "EndElement ''osmChange'' \<notin> set p" for p q and x :: 'x
  proof -
    from prefix_run [OF Vars0_newElem that, of L metadata x] obtain evs s' where
      "\<And>rest. parse_loop L metadata Vars0 (p @ rest) x =
         map Elem evs @ parse_loop L metadata s' rest x"
      and len: "length evs = length (filter closes_feature p)"
      by blast
    from this(1) [of "EndElement ''osmChange'' # q"]
    have "parse L metadata (Tokens (p @ EndElement ''osmChange'' # q) x) = map Elem evs"
      by (simp add: end_element_def)
    with len show ?thesis
      by blast
  qed
  show "\<exists>evs. parse L metadata src = map Elem evs \<or>
      (\<exists>x. parse L metadata src = map Elem evs @ [Err x])"
  proof (cases src)
    case (OpenError x)
    then show ?thesis
      by (intro exI [of _ "[]"]) simp
  next
    case (GzipError x)
    then show ?thesis
      by (intro exI [of _ "[]"]) simp
  next
    case (Tokens ts x)
    show ?thesis
    proof (cases "EndElement ''osmChange'' \<in> set ts")
      case True
      then obtain p q where ts: "ts = p @ EndElement ''osmChange'' # q"
        and p: "EndElement ''osmChange'' \<notin> set p"
        by (auto dest: split_list_first)
      from closing [OF p, of q x] show ?thesis
        unfolding Tokens ts by blast
    next
      case False
      from failing [OF False, of x] show ?thesis
        unfolding Tokens by blast
    qed
  qed
qed

theorem parse_fatal_errors_witness:
  "EndElement ''osmChange'' \<notin>
     set [StartElement ''osmChange'' [], StartElement ''create'' [],
          StartElement ''node'' [(''id'', ''1'')], EndElement ''node'',
          StartElement ''node'' [(''id'', ''2'')], StartElement ''tag'' [(''k'', ''name'')]] \<and>
   (\<exists>evs.
      parse \<lparr>ParseFloat = (\<lambda>s. (0 :: real, Some ErrSyntax)), time_Parse = (\<lambda>s. (0 :: int, True)),
             MemberTypeValues = [''node'' \<mapsto> 0, ''way'' \<mapsto> 1, ''relation'' \<mapsto> 2]\<rparr>
        False
        (Tokens
           [StartElement ''osmChange'' [], StartElement ''create'' [],
            StartElement ''node'' [(''id'', ''1'')], EndElement ''node'',
            StartElement ''node'' [(''id'', ''2'')], StartElement ''tag'' [(''k'', ''name'')]]
           ''unexpected EOF'') = map Elem evs @ [Err ''unexpected EOF''] \<and>
      length evs = 1) \<and>
   EndElement ''osmChange'' \<notin> set [StartElement ''osmChange'' [], StartElement ''create'' []] \<and>
   (\<exists>evs.
      parse \<lparr>ParseFloat = (\<lambda>s. (0 :: real, Some ErrSyntax)), time_Parse = (\<lambda>s. (0 :: int, True)),
             MemberTypeValues = [''node'' \<mapsto> 0, ''way'' \<mapsto> 1, ''relation'' \<mapsto> 2]\<rparr>
        False
        (Tokens
           ([StartElement ''osmChange'' [], StartElement ''create'' []] @
            EndElement ''osmChange'' # [CharData ''rest''])
           ''EOF'') = map Elem evs \<and>
      length evs = 0)"
proof -
  let ?L = "\<lparr>ParseFloat = (\<lambda>s. (0 :: real, Some ErrSyntax)), time_Parse = (\<lambda>s. (0 :: int, True)),
             MemberTypeValues = [''node'' \<mapsto> 0, ''way'' \<mapsto> 1, ''relation'' \<mapsto> 2]\<rparr>"
  let ?ts = "[StartElement ''osmChange'' [], StartElement ''create'' [],
          StartElement ''node'' [(''id'', ''1'')], EndElement ''node'',
          StartElement ''node'' [(''id'', ''2'')], StartElement ''tag'' [(''k'', ''name'')]]"
  let ?pre = "[StartElement ''osmChange'' [], StartElement ''create'' []]"
  have a: "EndElement ''osmChange'' \<notin> set ?ts"
    by simp
  have b: "EndElement ''osmChange'' \<notin> set ?pre"
    by simp
  note all = parse_fatal_errors [of ?L False "''unexpected EOF''" ?ts ?pre "[CharData ''rest'']"
      "OpenError ''unexpected EOF''"]
  note c = all [THEN conjunct2, THEN conjunct2, THEN conjunct1, THEN mp, OF a]
  note all' = parse_fatal_errors [of ?L False "''EOF''" ?ts ?pre "[CharData ''rest'']"
      "OpenError ''EOF''"]
  note d = all' [THEN conjunct2, THEN conjunct2, THEN conjunct2, THEN conjunct1, THEN mp, OF b]
  from c have c': "\<exists>evs. parse ?L False (Tokens ?ts ''unexpected EOF'') =
      map Elem evs @ [Err ''unexpected EOF''] \<and> length evs = 1"
    by (simp del: parse.simps)
  from d have d': "\<exists>evs. parse ?L False (Tokens (?pre @ EndElement ''osmChange'' # [CharData ''rest''])
      ''EOF'') = map Elem evs \<and> length evs = 0"
    by (simp del: parse.simps)
  from a b c' d' show ?thesis
    by (intro conjI)
qed

text \<open>
  C9: every event the parser sends has at most one of the flags \<open>Add\<close>, \<open>Mod\<close>, \<open>Del\<close>
  true. When a \<open>node\<close>, \<open>way\<close> or \<open>relation\<close> closes before any \<open>create\<close>, \<open>modify\<close> or
  \<open>delete\<close> has opened (and before \<open>osmChange\<close> has closed), the parser still sends an
  event for it, after the events of the features closed earlier, and that event has a
  payload of the kind of the closing element and all three flags false.
\<close>

theorem parse_at_most_one_flag:
  fixes L :: "('f::zero, 't::zero) Lib"
  shows
  "(\<forall>e. Elem e \<in> set (parse L metadata src) \<longrightarrow> length (true_flags e) \<le> 1) \<and>
   (\<not> list_ex opens_section pre \<and> EndElement ''osmChange'' \<notin> set pre \<and>
    (name = ''node'' \<or> name = ''way'' \<or> name = ''relation'') \<longrightarrow>
      (\<exists>evs e outs.
         parse L metadata (Tokens (pre @ EndElement name # rest) err) = map Elem evs @ Elem e # outs \<and>
         length evs = length (filter closes_feature pre) \<and>
         payload_kinds e = [name] \<and> \<not> Add e \<and> \<not> Mod e \<and> \<not> Del e))"
proof (intro conjI allI impI)
  fix e
  assume e: "Elem e \<in> set (parse L metadata src)"
  show "length (true_flags e) \<le> 1"
  proof (cases src)
    case (OpenError x)
    with e show ?thesis by simp
  next
    case (GzipError x)
    with e show ?thesis by simp
  next
    case (Tokens ts x)
    define p where "p = takeWhile (\<lambda>t. t \<noteq> EndElement ''osmChange'') ts"
    define q where "q = dropWhile (\<lambda>t. t \<noteq> EndElement ''osmChange'') ts"
    have ts: "ts = p @ q"
      by (simp add: p_def q_def)
    have p: "EndElement ''osmChange'' \<notin> set p"
      unfolding p_def by (auto dest: set_takeWhileD)
    have q: "q = [] \<or> (\<exists>q'. q = EndElement ''osmChange'' # q')"
    proof (cases q)
      case Nil
      then show ?thesis by simp
    next
      case (Cons t q')
      then have "q \<noteq> []"
        by simp
      then have "\<not> hd q \<noteq> EndElement ''osmChange''"
        unfolding q_def by (rule hd_dropWhile)
      then show ?thesis
        by (simp add: Cons)
    qed
    from prefix_run [OF Vars0_newElem p, of L metadata x] obtain evs s' where
      run: "\<And>rest. parse_loop L metadata Vars0 (p @ rest) x =
         map Elem evs @ parse_loop L metadata s' rest x"
      and fl: "\<forall>e\<in>set evs. length (true_flags e) \<le> max 1 (length (var_flags (Vars0 :: ('f, 't) Vars)))"
      by blast
    from q have "parse_loop L metadata s' q x = [] \<or> parse_loop L metadata s' q x = [Err x]"
      by (auto simp: end_element_def)
    with run [of q] e have "e \<in> set evs"
      by (auto simp: Tokens ts)
    with fl show ?thesis
      by simp
  qed
next
  assume a: "\<not> list_ex opens_section pre \<and> EndElement ''osmChange'' \<notin> set pre \<and>
    (name = ''node'' \<or> name = ''way'' \<or> name = ''relation'')"
  from prefix_run [OF Vars0_newElem, of pre L metadata err] a obtain evs s' where
    n': "\<not> v_newElem s'"
    and run: "\<And>rest. parse_loop L metadata Vars0 (pre @ rest) err =
       map Elem evs @ parse_loop L metadata s' rest err"
    and len: "length evs = length (filter closes_feature pre)"
    and fl: "var_flags s' = var_flags (Vars0 :: ('f, 't) Vars)"
    by blast
  from a have nm: "name = ''node'' \<or> name = ''way'' \<or> name = ''relation''"
    by simp
  from end_element_feature [OF n' nm] obtain s2 e where
    fin: "end_element s' name = Continue s2 (Some e)"
    and tf: "true_flags e = var_flags s'" and pk: "payload_kinds e = [name]"
    by blast
  from tf fl have "true_flags e = []"
    by simp
  then have flags: "\<not> Add e \<and> \<not> Mod e \<and> \<not> Del e"
    by (auto simp: true_flags_def split: if_splits)
  have "parse L metadata (Tokens (pre @ EndElement name # rest) err) =
      map Elem evs @ Elem e # parse_loop L metadata s2 rest err"
    by (simp add: run fin)
  with len pk flags
  show "\<exists>evs e outs.
      parse L metadata (Tokens (pre @ EndElement name # rest) err) = map Elem evs @ Elem e # outs \<and>
      length evs = length (filter closes_feature pre) \<and>
      payload_kinds e = [name] \<and> \<not> Add e \<and> \<not> Mod e \<and> \<not> Del e"
    by blast
qed

theorem parse_at_most_one_flag_witness:
  "Elem \<lparr>Add = False, Mod = False, Del = False,
          Node = Some \<lparr>Id = 5, Tags = None, Metadata = None, Lat = 0, Long = 0\<rparr>,
          Way = None, Rel = None\<rparr>
     \<in> set (parse \<lparr>ParseFloat = (\<lambda>s. (0 :: real, Some ErrSyntax)),
                    time_Parse = (\<lambda>s. (0 :: int, True)),
                    MemberTypeValues = [''node'' \<mapsto> 0, ''way'' \<mapsto> 1, ''relation'' \<mapsto> 2]\<rparr>
                False
                (Tokens ([StartElement ''osmChange'' [], StartElement ''node'' [(''id'', ''5'')]] @
                         EndElement ''node'' # [EndElement ''osmChange''])
                   ''EOF'')) \<and>
   length (true_flags \<lparr>Add = False, Mod = False, Del = False,
          Node = Some \<lparr>Id = 5, Tags = None, Metadata = None, Lat = 0 :: real, Long = 0\<rparr>,
          Way = None :: int Way option, Rel = None\<rparr>) \<le> 1 \<and>
   \<not> list_ex opens_section [StartElement ''osmChange'' [], StartElement ''node'' [(''id'', ''5'')]] \<and>
   EndElement ''osmChange'' \<notin> set [StartElement ''osmChange'' [], StartElement ''node'' [(''id'', ''5'')]] \<and>
   (\<exists>evs e outs.
      parse \<lparr>ParseFloat = (\<lambda>s. (0 :: real, Some ErrSyntax)),
             time_Parse = (\<lambda>s. (0 :: int, True)),
             MemberTypeValues = [''node'' \<mapsto> 0, ''way'' \<mapsto> 1, ''relation'' \<mapsto> 2]\<rparr>
        False
        (Tokens ([StartElement ''osmChange'' [], StartElement ''node'' [(''id'', ''5'')]] @
                 EndElement ''node'' # [EndElement ''osmChange''])
           ''EOF'') = map Elem evs @ Elem e # outs \<and>
      length evs = 0 \<and> payload_kinds e = [''node''] \<and> \<not> Add e \<and> \<not> Mod e \<and> \<not> Del e)"
proof -
  let ?L = "\<lparr>ParseFloat = (\<lambda>s. (0 :: real, Some ErrSyntax)),
             time_Parse = (\<lambda>s. (0 :: int, True)),
             MemberTypeValues = [''node'' \<mapsto> 0, ''way'' \<mapsto> 1, ''relation'' \<mapsto> 2]\<rparr>"
  let ?pre = "[StartElement ''osmChange'' [], StartElement ''node'' [(''id'', ''5'')]]"
  let ?src = "Tokens (?pre @ EndElement ''node'' # [EndElement ''osmChange'']) ''EOF''"
  let ?e = "\<lparr>Add = False, Mod = False, Del = False,
          Node = Some \<lparr>Id = 5, Tags = None, Metadata = None, Lat = 0 :: real, Long = 0\<rparr>,
          Way = None :: int Way option, Rel = None\<rparr>"
  have id: "ParseInt ''5'' = (5, None)"
    by (simp add: ParseInt_def ParseUint_def digit_of_def maxUint64_def)
  have "parse ?L False ?src = [Elem ?e]"
    by (simp add: start_element_def end_element_def emit_def node_attr_def id
        Vars0_def Node0_def DiffElem0_def)
  then have mem: "Elem ?e \<in> set (parse ?L False ?src)"
    by simp
  have hyp: "\<not> list_ex opens_section ?pre \<and> EndElement ''osmChange'' \<notin> set ?pre \<and>
      (''node'' = ''node'' \<or> ''node'' = ''way'' \<or> ''node'' = ''relation'')"
    by simp
  note inst = parse_at_most_one_flag [of ?L False ?src ?pre "''node''" "[EndElement ''osmChange'']" "''EOF''"]
  from inst [THEN conjunct1, THEN spec, THEN mp, OF mem]
  have flags: "length (true_flags ?e) \<le> 1" .
  from inst [THEN conjunct2, THEN mp, OF hyp]
  have ex: "\<exists>evs e outs. parse ?L False ?src = map Elem evs @ Elem e # outs \<and>
      length evs = 0 \<and> payload_kinds e = [''node''] \<and> \<not> Add e \<and> \<not> Mod e \<and> \<not> Del e"
    by (simp del: parse.simps)
  from mem flags hyp ex show ?thesis
    by (intro conjI) simp_all
qed

text \<open>
  The members of a relation. An attribute of \<open>member\<close> is rejected when it is a \<open>type\<close>
  whose value is not a key of \<open>MemberTypeValues\<close>, or a \<open>ref\<close> on which \<open>ParseInt\<close>
  returns an error; \<open>member_of\<close> is the member the loop over the attributes ends with
  when it rejects none. A text on which \<open>ParseInt\<close> returns no error is \<open>decimal\<close>: an
  optional sign and one decimal digit at least.
\<close>

definition member_attr_rejected :: "('f, 't) Lib \<Rightarrow> Attr \<Rightarrow> bool" where
  "member_attr_rejected L a =
     (fst a = ''type'' \<and> MemberTypeValues L (snd a) = None \<or>
      fst a = ''ref'' \<and> snd (ParseInt (snd a)) \<noteq> None)"

definition member_of :: "('f, 't) Lib \<Rightarrow> Attr list \<Rightarrow> Member" where
  "member_of L attrs =
     \<lparr>Type = (case last_attr ''type'' attrs of None \<Rightarrow> 0 | Some v \<Rightarrow> the (MemberTypeValues L v)),
      Role = (case last_attr ''role'' attrs of None \<Rightarrow> [] | Some v \<Rightarrow> v),
      Id = (case last_attr ''ref'' attrs of None \<Rightarrow> 0 | Some v \<Rightarrow> fst (ParseInt v))\<rparr>"

definition decimal :: "string \<Rightarrow> bool" where
  "decimal s =
     (let body = (if s \<noteq> [] \<and> (hd s = CHR ''+'' \<or> hd s = CHR ''-'') then tl s else s)
      in body \<noteq> [] \<and> list_all (\<lambda>c. digit_of c \<noteq> None) body)"

lemma last_attr_Cons:
  "last_attr name (a # attrs) =
     (case last_attr name attrs of
        None \<Rightarrow> if fst a = name then Some (snd a) else None
      | Some v \<Rightarrow> Some v)"
  by (simp add: last_attr_def)

lemma member_attrs_eq:
  "member_attrs L m attrs =
     (if list_ex (member_attr_rejected L) attrs then None
      else Some
        \<lparr>Type = (case last_attr ''type'' attrs of None \<Rightarrow> Type m
                 | Some v \<Rightarrow> the (MemberTypeValues L v)),
         Role = (case last_attr ''role'' attrs of None \<Rightarrow> Role m | Some v \<Rightarrow> v),
         Id = (case last_attr ''ref'' attrs of None \<Rightarrow> Member.Id m
               | Some v \<Rightarrow> fst (ParseInt v))\<rparr>)"
proof (induction attrs arbitrary: m)
  case Nil
  show ?case
    by (cases m) simp
next
  case (Cons a attrs)
  show ?case
  proof (cases "member_attr_rejected L a")
    case True
    then show ?thesis
      by (auto simp: member_attr_rejected_def split: option.splits)
  next
    case False
    then show ?thesis
      by (auto simp: Cons.IH member_attr_rejected_def last_attr_Cons split: option.splits)
  qed
qed

lemma member_attrs_Member0:
  "member_attrs L Member0 attrs =
     (if list_ex (member_attr_rejected L) attrs then None else Some (member_of L attrs))"
  by (simp add: member_attrs_eq member_of_def Member0_def split: option.splits)

lemma children_members_eq:
  "children_members L cs =
     map (member_of L)
       (filter (\<lambda>attrs. \<not> list_ex (member_attr_rejected L) attrs) (children_named ''member'' cs))"
proof -
  have "List.map_filter (member_attrs L Member0) ass =
      map (member_of L) (filter (\<lambda>attrs. \<not> list_ex (member_attr_rejected L) attrs) ass)" for ass
    by (induction ass) (simp_all add: List.map_filter_simps member_attrs_Member0)
  then show ?thesis
    by (simp add: children_members_def)
qed

lemma ParseUint_loop_decimal:
  "snd (ParseUint_loop n s) = None \<Longrightarrow> list_all (\<lambda>c. digit_of c \<noteq> None) s"
  by (induction n s rule: ParseUint_loop.induct) (auto split: option.splits if_splits)

lemma ParseUint_loop_range:
  "snd (ParseUint_loop n s) = Some ErrRange \<Longrightarrow> fst (ParseUint_loop n s) = maxUint64"
  by (induction n s rule: ParseUint_loop.induct) (auto split: option.splits if_splits)

lemma ParseUint_cases:
  "ParseUint s = (0, Some ErrSyntax) \<or> ParseUint s = (maxUint64, Some ErrRange) \<or>
   snd (ParseUint s) = None \<and> s \<noteq> [] \<and> list_all (\<lambda>c. digit_of c \<noteq> None) s"
proof (cases "s = []")
  case True
  then show ?thesis
    by (simp add: ParseUint_def)
next
  case False
  have syn: "snd (ParseUint_loop n t) = Some ErrSyntax \<Longrightarrow> fst (ParseUint_loop n t) = 0" for n t
    by (induction n t rule: ParseUint_loop.induct) (auto split: option.splits if_splits)
  show ?thesis
  proof (cases "snd (ParseUint_loop 0 s)")
    case None
    then show ?thesis
      using False ParseUint_loop_decimal [of 0 s] by (simp add: ParseUint_def)
  next
    case (Some e)
    then show ?thesis
      using False syn [of 0 s] ParseUint_loop_range [of 0 s]
      by (cases e) (auto simp: ParseUint_def prod_eq_iff)
  qed
qed

lemma ParseInt_decimal: "snd (ParseInt s) = None \<Longrightarrow> decimal s"
proof -
  assume ok: "snd (ParseInt s) = None"
  then have s: "s \<noteq> []"
    by (auto simp: ParseInt_def)
  define body where "body = (if hd s = CHR ''+'' \<or> hd s = CHR ''-'' then tl s else s)"
  have not_rng: "ParseUint body \<noteq> (maxUint64, Some ErrRange)"
    using ok s by (auto simp: ParseInt_def body_def Let_def maxUint64_def split: if_splits)
  have not_syn: "ParseUint body \<noteq> (0, Some ErrSyntax)"
    using ok s by (auto simp: ParseInt_def body_def Let_def split: if_splits)
  from ParseUint_cases [of body] not_rng not_syn
  have "body \<noteq> []" and "list_all (\<lambda>c. digit_of c \<noteq> None) body"
    by auto
  then show ?thesis
    using s by (simp add: decimal_def body_def)
qed

text \<open>
  C5: in a change file that follows the schema, the event of a relation carries, in the
  order of the file, the members built from those \<open>member\<close> children none of whose
  attributes is rejected. A \<open>member\<close> with a \<open>type\<close> outside the table, or with a \<open>ref\<close>
  on which \<open>ParseInt\<close> fails (every text that is not a decimal integer), is left out
  alone: the relation is still sent, with its other members.
\<close>

theorem member_dropped_alone:
  assumes "schema_doc doc" and "filter is_element tokens = doc_tokens doc"
    and "i < length (doc_features doc)"
    and "doc_features doc ! i = (name, Feature ''relation'' attrs cs)"
  shows "(\<exists>evs r. parse L metadata (Tokens tokens err) = map Elem evs \<and>
            length evs = length (doc_features doc) \<and> Rel (evs ! i) = Some r \<and>
            Members r =
              map (member_of L)
                (filter (\<lambda>as. \<not> list_ex (member_attr_rejected L) as)
                   (children_named ''member'' cs))) \<and>
         (\<forall>as. member_attrs L Member0 as =
            (if (\<exists>a\<in>set as. fst a = ''type'' \<and> MemberTypeValues L (snd a) = None \<or>
                              fst a = ''ref'' \<and> snd (ParseInt (snd a)) \<noteq> None)
             then None else Some (member_of L as))) \<and>
         (\<forall>v. \<not> decimal v \<longrightarrow> snd (ParseInt v) \<noteq> None)"
proof (intro conjI allI impI)
  let ?e = "feature_event L metadata (name = ''create'') (name = ''modify'') (name = ''delete'')
      (Feature ''relation'' attrs cs)"
  have run: "parse L metadata (Tokens tokens err) = map Elem (doc_events L metadata doc)"
    by (rule parse_doc [OF assms(1,2)])
  have len: "length (doc_events L metadata doc) = length (doc_features doc)"
    by (simp add: doc_events_def)
  have nth: "doc_events L metadata doc ! i = ?e"
    using assms(3,4) by (simp add: doc_events_def)
  have "\<exists>r. Rel ?e = Some r \<and> Members r = children_members L cs"
    by (simp add: DiffElem0_def with_tags_def)
  with run len nth
  show "\<exists>evs r. parse L metadata (Tokens tokens err) = map Elem evs \<and>
      length evs = length (doc_features doc) \<and> Rel (evs ! i) = Some r \<and>
      Members r = map (member_of L)
        (filter (\<lambda>as. \<not> list_ex (member_attr_rejected L) as) (children_named ''member'' cs))"
    unfolding children_members_eq by metis
next
  fix as
  show "member_attrs L Member0 as =
      (if (\<exists>a\<in>set as. fst a = ''type'' \<and> MemberTypeValues L (snd a) = None \<or>
                        fst a = ''ref'' \<and> snd (ParseInt (snd a)) \<noteq> None)
       then None else Some (member_of L as))"
    by (simp add: member_attrs_Member0 list_ex_iff member_attr_rejected_def)
next
  fix v
  assume "\<not> decimal v"
  then show "snd (ParseInt v) \<noteq> None"
    using ParseInt_decimal by blast
qed

theorem member_dropped_alone_witness:
  "schema_doc
     (Doc []
        [Section ''modify'' []
           [Feature ''relation'' [(''id'', ''4'')]
              [Child ''member'' [(''type'', ''way''), (''ref'', ''8''), (''role'', ''outer'')],
               Child ''member'' [(''type'', ''bogus''), (''ref'', ''5'')],
               Child ''member'' [(''type'', ''node''), (''ref'', ''abc'')],
               Child ''member'' [(''type'', ''node''), (''ref'', ''3'')]]]]) \<and>
   (\<exists>evs r.
      parse \<lparr>ParseFloat = (\<lambda>s. (0 :: real, Some ErrSyntax)), time_Parse = (\<lambda>s. (0 :: int, True)),
             MemberTypeValues = [''node'' \<mapsto> 0, ''way'' \<mapsto> 1, ''relation'' \<mapsto> 2]\<rparr>
        False
        (Tokens
           [StartElement ''osmChange'' [], StartElement ''modify'' [],
            StartElement ''relation'' [(''id'', ''4'')],
            StartElement ''member'' [(''type'', ''way''), (''ref'', ''8''), (''role'', ''outer'')],
            EndElement ''member'',
            StartElement ''member'' [(''type'', ''bogus''), (''ref'', ''5'')],
            EndElement ''member'',
            StartElement ''member'' [(''type'', ''node''), (''ref'', ''abc'')],
            EndElement ''member'',
            StartElement ''member'' [(''type'', ''node''), (''ref'', ''3'')],
            EndElement ''member'',
            EndElement ''relation'', EndElement ''modify'', EndElement ''osmChange'']
           ''EOF'') = map Elem evs \<and>
      length evs = 1 \<and> Rel (evs ! 0) = Some r \<and>
      Members r = [\<lparr>Type = 1, Role = ''outer'', Id = 8\<rparr>, \<lparr>Type = 0, Role = [], Id = 3\<rparr>]) \<and>
   \<not> decimal ''abc'' \<and> snd (ParseInt ''abc'') \<noteq> None"
proof -
  let ?L = "\<lparr>ParseFloat = (\<lambda>s. (0 :: real, Some ErrSyntax)), time_Parse = (\<lambda>s. (0 :: int, True)),
             MemberTypeValues = [''node'' \<mapsto> 0, ''way'' \<mapsto> 1, ''relation'' \<mapsto> 2]\<rparr>"
  let ?cs = "[Child ''member'' [(''type'', ''way''), (''ref'', ''8''), (''role'', ''outer'')],
               Child ''member'' [(''type'', ''bogus''), (''ref'', ''5'')],
               Child ''member'' [(''type'', ''node''), (''ref'', ''abc'')],
               Child ''member'' [(''type'', ''node''), (''ref'', ''3'')]]"
  let ?doc = "Doc [] [Section ''modify'' [] [Feature ''relation'' [(''id'', ''4'')] ?cs]]"
  let ?tokens = "[StartElement ''osmChange'' [], StartElement ''modify'' [],
            StartElement ''relation'' [(''id'', ''4'')],
            StartElement ''member'' [(''type'', ''way''), (''ref'', ''8''), (''role'', ''outer'')],
            EndElement ''member'',
            StartElement ''member'' [(''type'', ''bogus''), (''ref'', ''5'')],
            EndElement ''member'',
            StartElement ''member'' [(''type'', ''node''), (''ref'', ''abc'')],
            EndElement ''member'',
            StartElement ''member'' [(''type'', ''node''), (''ref'', ''3'')],
            EndElement ''member'',
            EndElement ''relation'', EndElement ''modify'', EndElement ''osmChange'']"
  have doc: "schema_doc ?doc"
    by simp
  have tokens: "filter is_element ?tokens = doc_tokens ?doc"
    by simp
  have i: "0 < length (doc_features ?doc)"
    by simp
  have nth: "doc_features ?doc ! 0 = (''modify'', Feature ''relation'' [(''id'', ''4'')] ?cs)"
    by simp
  have refs: "ParseInt ''8'' = (8, None)" "ParseInt ''5'' = (5, None)" "ParseInt ''3'' = (3, None)"
    "ParseInt ''abc'' = (0, Some ErrSyntax)"
    by (simp_all add: ParseInt_def ParseUint_def digit_of_def maxUint64_def)
  have members: "map (member_of ?L)
      (filter (\<lambda>as. \<not> list_ex (member_attr_rejected ?L) as) (children_named ''member'' ?cs)) =
      [\<lparr>Type = 1, Role = ''outer'', Id = 8\<rparr>, \<lparr>Type = 0, Role = [], Id = 3\<rparr>]"
    by (simp add: member_attr_rejected_def member_of_def last_attr_def refs)
  from member_dropped_alone [OF doc tokens i nth, where L = ?L and metadata = False and err = "''EOF''",
      THEN conjunct1]
  have "\<exists>evs r. parse ?L False (Tokens ?tokens ''EOF'') = map Elem evs \<and>
      length evs = 1 \<and> Rel (evs ! 0) = Some r \<and>
      Members r = [\<lparr>Type = 1, Role = ''outer'', Id = 8\<rparr>, \<lparr>Type = 0, Role = [], Id = 3\<rparr>]"
    unfolding members by (simp del: parse.simps)
  note sent = this
  have abc: "\<not> decimal ''abc''"
    by (simp add: decimal_def digit_of_def)
  from member_dropped_alone [OF doc tokens i nth, where L = ?L and metadata = False and err = "''EOF''",
      THEN conjunct2, THEN conjunct2, THEN spec, THEN mp, OF abc]
  have "snd (ParseInt ''abc'') \<noteq> None" .
  with doc sent abc show ?thesis
    by (intro conjI)
qed










lemma with_tags_Metadata [simp]: "Metadata (with_tags tags e) = Metadata e"
  by (simp add: with_tags_def)

lemma with_tags_Lat [simp]: "Lat (with_tags tags n) = Lat n"
  by (simp add: with_tags_def)

lemma with_tags_Long [simp]: "Long (with_tags tags n) = Long n"
  by (simp add: with_tags_def)

lemma with_tags_Refs [simp]: "Refs (with_tags tags w) = Refs w"
  by (simp add: with_tags_def)

lemma with_meta_Lat [simp]: "Lat (with_meta L md attrs n) = Lat n"
  by (simp add: with_meta_def setElemMetadata_def)

lemma with_meta_Long [simp]: "Long (with_meta L md attrs n) = Long n"
  by (simp add: with_meta_def setElemMetadata_def)







end
